theory Spec2Isabelle
  imports Main "HOL-Library.Word"
begin

unbundle bit_operations_syntax

section \<open>Data model of message.go\<close>

type_synonym byte = "8 word"
type_synonym uint32 = "32 word"

definition protoVersion :: byte where
  "protoVersion = 1"

text \<open>\<^verbatim>\<open>type Flags byte\<close> with \<^verbatim>\<open>NoReplyExpected Flags = 1 << iota\<close>, \<^verbatim>\<open>NoAutoStart\<close>.\<close>

type_synonym Flags = byte

definition NoReplyExpected :: Flags where
  "NoReplyExpected = 1"

definition NoAutoStart :: Flags where
  "NoAutoStart = 2"

text \<open>\<^verbatim>\<open>type Type byte\<close>, the constants counting from \<^verbatim>\<open>1 + iota\<close>.\<close>

type_synonym Type = byte

definition TypeMethodCall :: Type where
  "TypeMethodCall = 1"

definition TypeMethodReply :: Type where
  "TypeMethodReply = 2"

definition TypeError :: Type where
  "TypeError = 3"

definition TypeSignal :: Type where
  "TypeSignal = 4"

definition typeMax :: Type where
  "typeMax = 5"

text \<open>\<^verbatim>\<open>type HeaderField byte\<close>, the constants counting from \<^verbatim>\<open>1 + iota\<close>.\<close>

type_synonym HeaderField = byte

definition FieldPath :: HeaderField where
  "FieldPath = 1"

definition FieldInterface :: HeaderField where
  "FieldInterface = 2"

definition FieldMember :: HeaderField where
  "FieldMember = 3"

definition FieldErrorName :: HeaderField where
  "FieldErrorName = 4"

definition FieldReplySerial :: HeaderField where
  "FieldReplySerial = 5"

definition FieldDestination :: HeaderField where
  "FieldDestination = 6"

definition FieldSender :: HeaderField where
  "FieldSender = 7"

definition FieldSignature :: HeaderField where
  "FieldSignature = 8"

definition FieldUnixFds :: HeaderField where
  "FieldUnixFds = 9"

definition fieldMax :: HeaderField where
  "fieldMax = 10"

lemmas const_defs =
  protoVersion_def NoReplyExpected_def NoAutoStart_def
  TypeMethodCall_def TypeMethodReply_def TypeError_def TypeSignal_def typeMax_def
  FieldPath_def FieldInterface_def FieldMember_def FieldErrorName_def
  FieldReplySerial_def FieldDestination_def FieldSender_def FieldSignature_def
  FieldUnixFds_def fieldMax_def

text \<open>
  Errors are values. \<^verbatim>\<open>InvalidMessageError\<close> is the string type of message.go; the
  others are the errors of package io that a reader or a writer hands back.
\<close>

datatype error =
    InvalidMessageError string
  | EOF
  | ErrUnexpectedEOF
  | ErrShortWrite
  | FormatError string
  | Panic string

text \<open>
  \<^verbatim>\<open>binary.ByteOrder\<close> is an interface: besides the two standard orders the field can
  hold nil or any other implementation, which is what \<open>OtherOrder\<close> stands for.
\<close>

datatype ByteOrder = LittleEndian | BigEndian | OtherOrder

text \<open>
  Modelled from the spec: the types \<^verbatim>\<open>objectPathType\<close>, \<^verbatim>\<open>stringType\<close>,
  \<^verbatim>\<open>uint32Type\<close>, \<^verbatim>\<open>signatureType\<close> and \<^verbatim>\<open>Variant\<close> are declared outside
  message.go. A variant is "a value paired with an explicit wire-level type tag"; the
  value is a Go \<^verbatim>\<open>interface{}\<close>, here one of the basic bus types or nil, and the tag
  is the signature of the value's type (\<open>signatureOf\<close> below).
\<close>

datatype reflectType =
    byteType | boolType | int16Type | uint16Type | int32Type | uint32Type
  | int64Type | uint64Type | float64Type | stringType | objectPathType | signatureType

datatype Value =
    Nil
  | ByteV byte
  | BoolV bool
  | Int16V "16 word"
  | Uint16V "16 word"
  | Int32V "32 word"
  | Uint32V uint32
  | Int64V "64 word"
  | Uint64V "64 word"
  | Float64V "64 word"
  | StringV string
  | ObjectPathV string
  | SignatureV string

datatype Variant = MakeVariant (valueOf: Value)

text \<open>\<^verbatim>\<open>reflect.TypeOf\<close>: nil for the nil interface value.\<close>

fun TypeOf :: "Value \<Rightarrow> reflectType option" where
  "TypeOf Nil = None"
| "TypeOf (ByteV _) = Some byteType"
| "TypeOf (BoolV _) = Some boolType"
| "TypeOf (Int16V _) = Some int16Type"
| "TypeOf (Uint16V _) = Some uint16Type"
| "TypeOf (Int32V _) = Some int32Type"
| "TypeOf (Uint32V _) = Some uint32Type"
| "TypeOf (Int64V _) = Some int64Type"
| "TypeOf (Uint64V _) = Some uint64Type"
| "TypeOf (Float64V _) = Some float64Type"
| "TypeOf (StringV _) = Some stringType"
| "TypeOf (ObjectPathV _) = Some objectPathType"
| "TypeOf (SignatureV _) = Some signatureType"

text \<open>The two registries. A Go map lookup of a missing key gives the zero value.\<close>

definition fieldTypes :: "HeaderField \<rightharpoonup> reflectType" where
  "fieldTypes = map_of
     [(FieldPath, objectPathType),
      (FieldInterface, stringType),
      (FieldMember, stringType),
      (FieldErrorName, stringType),
      (FieldReplySerial, uint32Type),
      (FieldDestination, stringType),
      (FieldSender, stringType),
      (FieldSignature, signatureType),
      (FieldUnixFds, uint32Type)]"

definition requiredFields :: "Type \<Rightarrow> HeaderField list" where
  "requiredFields t =
     (if t = TypeMethodCall then [FieldPath, FieldMember]
      else if t = TypeMethodReply then [FieldReplySerial]
      else if t = TypeError then [FieldErrorName, FieldReplySerial]
      else if t = TypeSignal then [FieldPath, FieldInterface, FieldMember]
      else [])"

record Message =
  Order :: ByteOrder
  Type :: Type
  Flags :: Flags
  Serial :: uint32
  Headers :: "HeaderField \<rightharpoonup> Variant"
  Body :: "byte list"

section \<open>Message.IsValid\<close>

text \<open>
  Go leaves the order in which \<^verbatim>\<open>range\<close> visits a map unspecified, and it may differ
  from one loop to the next. Each loop over \<^verbatim>\<open>message.Headers\<close> therefore takes the
  order of that run as a list of field codes, and passes over the codes that are not in
  the map; \<open>rangeOrder\<close> says that the list reaches every key of the map, once.
\<close>

definition rangeOrder :: "HeaderField list \<Rightarrow> (HeaderField \<rightharpoonup> Variant) \<Rightarrow> bool" where
  "rangeOrder ks h \<longleftrightarrow> distinct ks \<and> dom h \<subseteq> set ks"

text \<open>The loop of lines 196-203 over the entries, in the order \<open>ks\<close>.\<close>

fun checkHeaders :: "(HeaderField \<rightharpoonup> Variant) \<Rightarrow> HeaderField list \<Rightarrow> error option" where
  "checkHeaders h [] = None"
| "checkHeaders h (k # ks) =
     (case h k of
        None \<Rightarrow> checkHeaders h ks
      | Some v \<Rightarrow>
          if k = 0 \<or> k \<ge> fieldMax then Some (InvalidMessageError ''invalid header'')
          else if TypeOf (valueOf v) \<noteq> fieldTypes k
            then Some (InvalidMessageError ''invalid type of header field'')
          else checkHeaders h ks)"

text \<open>The loop of lines 204-208 over \<^verbatim>\<open>requiredFields[message.Type]\<close>.\<close>

fun checkRequired :: "(HeaderField \<rightharpoonup> Variant) \<Rightarrow> HeaderField list \<Rightarrow> error option" where
  "checkRequired h [] = None"
| "checkRequired h (v # vs) =
     (if h v = None then Some (InvalidMessageError ''missing required header'')
      else checkRequired h vs)"

definition IsValid :: "HeaderField list \<Rightarrow> Message \<Rightarrow> error option" where
  "IsValid ks message =
     (if Order message \<noteq> LittleEndian \<and> Order message \<noteq> BigEndian
        then Some (InvalidMessageError ''invalid byte order'')
      else if Flags message AND NOT (NoAutoStart OR NoReplyExpected) \<noteq> 0
        then Some (InvalidMessageError ''invalid flags'')
      else if Type message = 0 \<or> Type message \<ge> typeMax
        then Some (InvalidMessageError ''invalid message type'')
      else case checkHeaders (Headers message) ks of
        Some e \<Rightarrow> Some e
      | None \<Rightarrow>
         (case checkRequired (Headers message) (requiredFields (Type message)) of
            Some e \<Rightarrow> Some e
          | None \<Rightarrow>
              if Body message \<noteq> [] \<and> Headers message FieldSignature = None
                then Some (InvalidMessageError ''missing signature'')
              else None))"

section \<open>Readers and writers\<close>

text \<open>
  An \<^verbatim>\<open>io.Reader\<close> is modelled by the chunks it still has to deliver: one \<^verbatim>\<open>Read\<close>
  call returns at most the rest of the first chunk (a short read, as a socket gives),
  and \<^verbatim>\<open>io.EOF\<close> once nothing is left. The result is the bytes stored into the
  caller's buffer and the reader that remains.
\<close>

type_synonym reader = "byte list list"

fun Read :: "nat \<Rightarrow> reader \<Rightarrow> (error + byte list) \<times> reader" where
  "Read n [] = (Inl EOF, [])"
| "Read n (c # cs) =
     (if c = [] then Read n cs
      else (Inr (take n c), if n < length c then drop n c # cs else cs))"

text \<open>
  \<^verbatim>\<open>io.ReadFull\<close>, which \<^verbatim>\<open>binary.Read\<close> uses: it calls \<^verbatim>\<open>Read\<close> until the buffer is
  full, and turns an end of input after some bytes into \<^verbatim>\<open>io.ErrUnexpectedEOF\<close>.
\<close>

fun ReadFull :: "nat \<Rightarrow> reader \<Rightarrow> (error + byte list) \<times> reader" where
  "ReadFull n [] = (if n = 0 then (Inr [], []) else (Inl EOF, []))"
| "ReadFull n (c # cs) =
     (if n = 0 then (Inr [], c # cs)
      else if c = [] then ReadFull n cs
      else if n \<le> length c
        then (Inr (take n c), if n < length c then drop n c # cs else cs)
      else (case ReadFull (n - length c) cs of
              (Inl e, rd) \<Rightarrow> (Inl ErrUnexpectedEOF, rd)
            | (Inr bs, rd) \<Rightarrow> (Inr (c @ bs), rd)))"

text \<open>
  A Go buffer made with \<^verbatim>\<open>make([]byte, n)\<close> is zeroed; after a read that stored
  \<open>bs\<close> at its start it holds \<open>bs\<close> followed by the zeroes that were not overwritten.
\<close>

definition filled :: "nat \<Rightarrow> byte list \<Rightarrow> byte list" where
  "filled n bs = take n bs @ replicate (n - length bs) 0"

text \<open>
  An \<^verbatim>\<open>io.Writer\<close>: \<open>calls\<close> records the argument of every \<^verbatim>\<open>Write\<close> call,
  \<open>sink\<close> the bytes the transport accepted, and \<open>room\<close> how many more bytes it
  accepts before it fails (\<open>None\<close>: no limit).
\<close>

record Writer =
  calls :: "byte list list"
  sink :: "byte list"
  room :: "nat option"

definition Write :: "byte list \<Rightarrow> Writer \<Rightarrow> error option \<times> Writer" where
  "Write bs w =
     (case room w of
        None \<Rightarrow> (None, w\<lparr>calls := calls w @ [bs], sink := sink w @ bs\<rparr>)
      | Some r \<Rightarrow>
          if length bs \<le> r
            then (None, w\<lparr>calls := calls w @ [bs], sink := sink w @ bs,
                            room := Some (r - length bs)\<rparr>)
          else (Some ErrShortWrite,
                w\<lparr>calls := calls w @ [bs], sink := sink w @ take r bs, room := Some 0\<rparr>))"

text \<open>\<^verbatim>\<open>bytes.Buffer.WriteTo\<close>: one \<^verbatim>\<open>Write\<close> call with the whole content, none when empty.\<close>

definition WriteTo :: "byte list \<Rightarrow> Writer \<Rightarrow> error option \<times> Writer" where
  "WriteTo buf w = (if buf = [] then (None, w) else Write buf w)"

section \<open>The primitive codec\<close>

text \<open>
  Modelled from the spec: the encoder and the decoder (\<^verbatim>\<open>NewEncoder\<close>,
  \<^verbatim>\<open>EncodeMulti\<close>, \<^verbatim>\<open>NewDecoder\<close>, \<^verbatim>\<open>DecodeMulti\<close>, \<^verbatim>\<open>align\<close>) are not in
  message.go. The spec describes them as the codec that "encodes/decodes fixed-width
  scalars and tagged variant values according to the bus's type-signature system",
  "aware of the active byte order and current stream offset", the header section being
  a "length-prefixed array of (field-code: byte, value: variant) entries". The
  definitions below follow the wire format of the bus for these types: a scalar is
  aligned to its size, a string is a uint32 length, the bytes and a zero byte, a
  signature is a length byte, the bytes and a zero byte, a variant is the signature of
  its value and the value, a struct is aligned to 8, and an array is a uint32 byte
  count, padding to the alignment of its elements, and the elements. Variants of
  container type are outside this model: the decoder reports them as a format error.
\<close>

fun leNat :: "byte list \<Rightarrow> nat" where
  "leNat [] = 0"
| "leNat (b # bs) = unat b + 256 * leNat bs"

fun leBytes :: "nat \<Rightarrow> nat \<Rightarrow> byte list" where
  "leBytes 0 v = []"
| "leBytes (Suc n) v = of_nat (v mod 256) # leBytes n (v div 256)"

text \<open>
  \<^verbatim>\<open>binary.ByteOrder\<close>'s \<^verbatim>\<open>Uint16/32/64\<close> and \<^verbatim>\<open>PutUint16/32/64\<close>. message.go only
  ever hands \<open>LittleEndian\<close> or \<open>BigEndian\<close> to the codec.
\<close>

definition getUint :: "ByteOrder \<Rightarrow> byte list \<Rightarrow> nat" where
  "getUint order bs = (case order of BigEndian \<Rightarrow> leNat (rev bs) | _ \<Rightarrow> leNat bs)"

definition putUint :: "ByteOrder \<Rightarrow> nat \<Rightarrow> nat \<Rightarrow> byte list" where
  "putUint order n v = (case order of BigEndian \<Rightarrow> rev (leBytes n v) | _ \<Rightarrow> leBytes n v)"

definition padding :: "nat \<Rightarrow> nat \<Rightarrow> nat" where
  "padding pos n = (n - pos mod n) mod n"

definition bytesOf :: "string \<Rightarrow> byte list" where
  "bytesOf s = map of_char s"

definition stringOf :: "byte list \<Rightarrow> string" where
  "stringOf bs = map (\<lambda>b. char_of (unat b)) bs"

fun signatureOf :: "Value \<Rightarrow> string option" where
  "signatureOf Nil = None"
| "signatureOf (ByteV _) = Some ''y''"
| "signatureOf (BoolV _) = Some ''b''"
| "signatureOf (Int16V _) = Some ''n''"
| "signatureOf (Uint16V _) = Some ''q''"
| "signatureOf (Int32V _) = Some ''i''"
| "signatureOf (Uint32V _) = Some ''u''"
| "signatureOf (Int64V _) = Some ''x''"
| "signatureOf (Uint64V _) = Some ''t''"
| "signatureOf (Float64V _) = Some ''d''"
| "signatureOf (StringV _) = Some ''s''"
| "signatureOf (ObjectPathV _) = Some ''o''"
| "signatureOf (SignatureV _) = Some ''g''"

subsection \<open>Encoder\<close>

record Encoder =
  e_out :: "byte list"
  e_order :: ByteOrder
  e_pos :: nat

definition NewEncoder :: "ByteOrder \<Rightarrow> Encoder" where
  "NewEncoder order = \<lparr>e_out = [], e_order = order, e_pos = 0\<rparr>"

definition emit :: "byte list \<Rightarrow> Encoder \<Rightarrow> Encoder" where
  "emit bs enc = enc\<lparr>e_out := e_out enc @ bs, e_pos := e_pos enc + length bs\<rparr>"

definition enc_align :: "nat \<Rightarrow> Encoder \<Rightarrow> Encoder" where
  "enc_align n enc = emit (replicate (padding (e_pos enc) n) 0) enc"

definition encByte :: "byte \<Rightarrow> Encoder \<Rightarrow> Encoder" where
  "encByte b enc = emit [b] enc"

text \<open>
  An unsigned integer of \<open>w\<close> bytes, aligned to \<open>w\<close>. Only the low \<open>w\<close> bytes of \<open>v\<close>
  are written, which is the conversion to the \<open>w\<close>-byte type (\<^verbatim>\<open>uint32(len(s))\<close>).
\<close>

definition encUint :: "nat \<Rightarrow> nat \<Rightarrow> Encoder \<Rightarrow> Encoder" where
  "encUint w v enc = emit (putUint (e_order enc) w v) (enc_align w enc)"

definition encString :: "string \<Rightarrow> Encoder \<Rightarrow> Encoder" where
  "encString s enc = emit (bytesOf s @ [0]) (encUint 4 (length s) enc)"

definition encSignature :: "string \<Rightarrow> Encoder \<Rightarrow> Encoder" where
  "encSignature s enc = emit (of_nat (length s) # bytesOf s @ [0]) enc"

fun encValue :: "Value \<Rightarrow> Encoder \<Rightarrow> Encoder" where
  "encValue Nil enc = enc"
| "encValue (ByteV b) enc = encByte b enc"
| "encValue (BoolV b) enc = encUint 4 (if b then 1 else 0) enc"
| "encValue (Int16V w) enc = encUint 2 (unat w) enc"
| "encValue (Uint16V w) enc = encUint 2 (unat w) enc"
| "encValue (Int32V w) enc = encUint 4 (unat w) enc"
| "encValue (Uint32V w) enc = encUint 4 (unat w) enc"
| "encValue (Int64V w) enc = encUint 8 (unat w) enc"
| "encValue (Uint64V w) enc = encUint 8 (unat w) enc"
| "encValue (Float64V w) enc = encUint 8 (unat w) enc"
| "encValue (StringV s) enc = encString s enc"
| "encValue (ObjectPathV s) enc = encString s enc"
| "encValue (SignatureV s) enc = encSignature s enc"

text \<open>A nil value has no type to encode: the encoder stops with an error.\<close>

definition encVariant :: "Variant \<Rightarrow> Encoder \<Rightarrow> error option \<times> Encoder" where
  "encVariant v enc =
     (case signatureOf (valueOf v) of
        None \<Rightarrow> (Some (Panic ''invalid type''), enc)
      | Some sg \<Rightarrow> (None, encValue (valueOf v) (encSignature sg enc)))"

definition encHeader :: "HeaderField \<times> Variant \<Rightarrow> Encoder \<Rightarrow> error option \<times> Encoder" where
  "encHeader h enc = encVariant (snd h) (encByte (fst h) (enc_align 8 enc))"

fun encHeaderList :: "(HeaderField \<times> Variant) list \<Rightarrow> Encoder \<Rightarrow> error option \<times> Encoder" where
  "encHeaderList [] enc = (None, enc)"
| "encHeaderList (h # hs) enc =
     (case encHeader h enc of
        (Some e, enc') \<Rightarrow> (Some e, enc')
      | (None, enc') \<Rightarrow> encHeaderList hs enc')"

text \<open>
  The array: the elements are encoded aside, at the offset they will have, so that
  their byte count can be written first.
\<close>

definition encHeaders :: "(HeaderField \<times> Variant) list \<Rightarrow> Encoder \<Rightarrow> error option \<times> Encoder" where
  "encHeaders hs enc =
     (let enc1 = enc_align 4 enc;
          offset = e_pos enc1 + 4 + padding (e_pos enc1 + 4) 8
      in case encHeaderList hs \<lparr>e_out = [], e_order = e_order enc, e_pos = offset\<rparr> of
           (Some e, sub) \<Rightarrow> (Some e, enc)
         | (None, sub) \<Rightarrow>
             (None, emit (e_out sub)
                      (enc_align 8 (encUint 4 (length (e_out sub)) enc1))))"

text \<open>
  \<^verbatim>\<open>EncodeMulti(vs...)\<close> for the seven values of \<^verbatim>\<open>EncodeTo\<close>. The first one is
  nil when the switch on the order matched no case.
\<close>

definition EncodeMulti ::
  "byte option \<times> Type \<times> Flags \<times> byte \<times> uint32 \<times> uint32 \<times> (HeaderField \<times> Variant) list
     \<Rightarrow> Encoder \<Rightarrow> error option \<times> Encoder" where
  "EncodeMulti vs enc =
     (case vs of (v0, t, f, p, len, serial, headers) \<Rightarrow>
        (case v0 of
           None \<Rightarrow> (Some (Panic ''invalid type''), enc)
         | Some b \<Rightarrow>
             encHeaders headers
               (encUint 4 (unat serial) (encUint 4 (unat len)
                 (encByte p (encByte f (encByte t (encByte b enc))))))))"

subsection \<open>Decoder\<close>

record Decoder =
  d_in :: reader
  d_order :: ByteOrder
  d_pos :: nat

definition NewDecoder :: "reader \<Rightarrow> ByteOrder \<Rightarrow> Decoder" where
  "NewDecoder rd order = \<lparr>d_in = rd, d_order = order, d_pos = 0\<rparr>"

text \<open>A decoding step gives an error or a value, and the decoder as it is afterwards.\<close>

type_synonym 'a decoding = "Decoder \<Rightarrow> (error + 'a) \<times> Decoder"

definition ret :: "'a \<Rightarrow> 'a decoding" where
  "ret a dec = (Inr a, dec)"

definition failWith :: "error \<Rightarrow> 'a decoding" where
  "failWith e dec = (Inl e, dec)"

definition andThen :: "'a decoding \<Rightarrow> ('a \<Rightarrow> 'b decoding) \<Rightarrow> 'b decoding" where
  "andThen m f dec =
     (case m dec of (Inl e, dec') \<Rightarrow> (Inl e, dec') | (Inr a, dec') \<Rightarrow> f a dec')"

definition dec_read :: "nat \<Rightarrow> byte list decoding" where
  "dec_read n dec =
     (case ReadFull n (d_in dec) of
        (Inl e, rd) \<Rightarrow> (Inl e, dec\<lparr>d_in := rd\<rparr>)
      | (Inr bs, rd) \<Rightarrow> (Inr bs, dec\<lparr>d_in := rd, d_pos := d_pos dec + n\<rparr>))"

definition dec_align :: "nat \<Rightarrow> unit decoding" where
  "dec_align n dec = andThen (dec_read (padding (d_pos dec) n)) (\<lambda>_. ret ()) dec"

definition decByte :: "byte decoding" where
  "decByte = andThen (dec_read 1) (\<lambda>bs. ret (case bs of [] \<Rightarrow> 0 | b # _ \<Rightarrow> b))"

definition decUint :: "nat \<Rightarrow> nat decoding" where
  "decUint w =
     andThen (dec_align w) (\<lambda>_.
     andThen (dec_read w) (\<lambda>bs dec. ret (getUint (d_order dec) bs) dec))"

definition decString :: "string decoding" where
  "decString =
     andThen (decUint 4) (\<lambda>n.
     andThen (dec_read (n + 1)) (\<lambda>bs. ret (stringOf (take n bs))))"

definition decSignature :: "string decoding" where
  "decSignature =
     andThen decByte (\<lambda>n.
     andThen (dec_read (unat n + 1)) (\<lambda>bs. ret (stringOf (take (unat n) bs))))"

definition decBool :: "Value decoding" where
  "decBool =
     andThen (decUint 4) (\<lambda>v.
       if v = 0 then ret (BoolV False)
       else if v = 1 then ret (BoolV True)
       else failWith (FormatError ''invalid value for boolean''))"

definition decValue :: "string \<Rightarrow> Value decoding" where
  "decValue sg =
     (if sg = ''y'' then andThen decByte (\<lambda>b. ret (ByteV b))
      else if sg = ''b'' then decBool
      else if sg = ''n'' then andThen (decUint 2) (\<lambda>v. ret (Int16V (of_nat v)))
      else if sg = ''q'' then andThen (decUint 2) (\<lambda>v. ret (Uint16V (of_nat v)))
      else if sg = ''i'' then andThen (decUint 4) (\<lambda>v. ret (Int32V (of_nat v)))
      else if sg = ''u'' then andThen (decUint 4) (\<lambda>v. ret (Uint32V (of_nat v)))
      else if sg = ''x'' then andThen (decUint 8) (\<lambda>v. ret (Int64V (of_nat v)))
      else if sg = ''t'' then andThen (decUint 8) (\<lambda>v. ret (Uint64V (of_nat v)))
      else if sg = ''d'' then andThen (decUint 8) (\<lambda>v. ret (Float64V (of_nat v)))
      else if sg = ''s'' then andThen decString (\<lambda>s. ret (StringV s))
      else if sg = ''o'' then andThen decString (\<lambda>s. ret (ObjectPathV s))
      else if sg = ''g'' then andThen decSignature (\<lambda>s. ret (SignatureV s))
      else failWith (FormatError ''variant signature outside the model''))"

definition decVariant :: "Variant decoding" where
  "decVariant = andThen decSignature (\<lambda>sg. andThen (decValue sg) (\<lambda>v. ret (MakeVariant v)))"

definition decHeader :: "(HeaderField \<times> Variant) decoding" where
  "decHeader =
     andThen (dec_align 8) (\<lambda>_.
     andThen decByte (\<lambda>k.
     andThen decVariant (\<lambda>v. ret (k, v))))"

text \<open>
  The array loop below runs while the decoder's position is before the end of the array.
  It ends because every header read moves the position on by at least the byte of the
  field code.
\<close>

definition advances :: "nat \<Rightarrow> 'a decoding \<Rightarrow> bool" where
  "advances n m \<longleftrightarrow> (\<forall>dec a dec'. m dec = (Inr a, dec') \<longrightarrow> d_pos dec + n \<le> d_pos dec')"

lemma advancesD: "advances n m \<Longrightarrow> m dec = (Inr a, dec') \<Longrightarrow> d_pos dec + n \<le> d_pos dec'"
  by (auto simp: advances_def)

lemma advances_ret: "advances 0 (ret a)"
  by (simp add: advances_def ret_def)

lemma advances_failWith: "advances n (failWith e)"
  by (simp add: advances_def failWith_def)

lemma advances_andThen:
  "advances i m \<Longrightarrow> (\<And>a. advances j (f a)) \<Longrightarrow> advances (i + j) (andThen m f)"
  unfolding advances_def andThen_def
  by (fastforce split: prod.splits sum.splits)

lemma advances_weaken: "advances i m \<Longrightarrow> advances 0 m"
  by (fastforce simp: advances_def)

lemma advances_andThen0:
  "advances i m \<Longrightarrow> (\<And>a. advances j (f a)) \<Longrightarrow> advances 0 (andThen m f)"
  by (rule advances_weaken [OF advances_andThen])

lemma advances_read: "advances n (dec_read n)"
  by (auto simp: advances_def dec_read_def split: prod.splits sum.splits)

lemma advances_align: "advances 0 (dec_align n)"
  by (auto simp: advances_def dec_align_def andThen_def ret_def dec_read_def split: prod.splits sum.splits)

lemma advances_byte: "advances 1 decByte"
  unfolding decByte_def using advances_andThen [OF advances_read advances_ret] by simp

lemma advances_uint: "advances 0 (decUint w)"
  unfolding decUint_def
  by (rule advances_andThen0 [OF advances_align advances_andThen0 [OF advances_read]])
    (simp add: advances_def ret_def)

lemma advances_string: "advances 0 decString"
  unfolding decString_def
  by (rule advances_andThen0 [OF advances_uint advances_andThen0 [OF advances_read advances_ret]])

lemma advances_signature: "advances 0 decSignature"
  unfolding decSignature_def
  by (rule advances_andThen0 [OF advances_byte advances_andThen0 [OF advances_read advances_ret]])

lemma advances_bool: "advances 0 decBool"
  unfolding decBool_def
  by (rule advances_andThen0 [OF advances_uint, where j = 0])
    (simp_all add: advances_ret advances_failWith)

lemma advances_value: "advances 0 (decValue sg)"
  unfolding decValue_def
  by (auto intro!: advances_bool advances_failWith
      advances_andThen0 [OF advances_byte advances_ret]
      advances_andThen0 [OF advances_uint advances_ret]
      advances_andThen0 [OF advances_string advances_ret]
      advances_andThen0 [OF advances_signature advances_ret])

lemma advances_variant: "advances 0 decVariant"
  unfolding decVariant_def
  by (rule advances_andThen0 [OF advances_signature
        advances_andThen0 [OF advances_value advances_ret]])

lemma advances_header: "advances 1 decHeader"
proof -
  have "advances 1 (andThen decByte (\<lambda>k. andThen decVariant (\<lambda>v. ret (k, v))))"
    using advances_andThen [OF advances_byte advances_andThen0 [OF advances_variant advances_ret]]
    by simp
  from advances_andThen [OF advances_align this]
  show ?thesis unfolding decHeader_def by simp
qed

function decHeaderList ::
  "nat \<Rightarrow> (HeaderField \<times> Variant) list \<Rightarrow> (HeaderField \<times> Variant) list decoding" where
  "decHeaderList stop acc dec =
     (if d_pos dec < stop
        then (case decHeader dec of
                (Inl e, dec') \<Rightarrow> (Inl e, dec')
              | (Inr h, dec') \<Rightarrow> decHeaderList stop (acc @ [h]) dec')
      else (Inr acc, dec))"
  by pat_completeness auto
termination
proof (relation "measure (\<lambda>(stop, acc, dec). stop - d_pos dec)")
  show "wf (measure (\<lambda>(stop, acc, dec). stop - d_pos dec))" by simp
next
  fix stop :: nat and acc :: "(HeaderField \<times> Variant) list" and dec x1 x2 b
  assume "d_pos dec < stop" and "(x1, x2) = decHeader dec" and "x1 = Inr b"
  then have "d_pos dec + 1 \<le> d_pos x2"
    using advancesD [OF advances_header, of dec b x2] by simp
  with \<open>d_pos dec < stop\<close>
  show "((stop, acc @ [b], x2), stop, acc, dec) \<in> measure (\<lambda>(stop, acc, dec). stop - d_pos dec)"
    by simp
qed

declare decHeaderList.simps [simp del]

definition decHeaders :: "(HeaderField \<times> Variant) list decoding" where
  "decHeaders =
     andThen (decUint 4) (\<lambda>n.
     andThen (dec_align 8) (\<lambda>_ dec. decHeaderList (d_pos dec + n) [] dec))"

text \<open>
  \<^verbatim>\<open>DecodeMulti(&message.Type, &message.Flags, &proto, &length, &message.Serial, &headers)\<close>:
  the six values in order, or the first error.
\<close>

definition DecodeMulti ::
  "(Type \<times> Flags \<times> byte \<times> uint32 \<times> uint32 \<times> (HeaderField \<times> Variant) list) decoding" where
  "DecodeMulti =
     andThen decByte (\<lambda>t.
     andThen decByte (\<lambda>f.
     andThen decByte (\<lambda>proto.
     andThen (decUint 4) (\<lambda>len.
     andThen (decUint 4) (\<lambda>serial.
     andThen decHeaders (\<lambda>headers.
       ret (t, f, proto, of_nat len, of_nat serial, headers)))))))"

section \<open>DecodeMessage\<close>

text \<open>
  The loop of lines 125-128: \<^verbatim>\<open>message.Headers[v.HeaderField] = v.Variant\<close> for each
  decoded header in wire order.
\<close>

definition headersMap :: "(HeaderField \<times> Variant) list \<Rightarrow> (HeaderField \<rightharpoonup> Variant)" where
  "headersMap headers = fold (\<lambda>v h. h(fst v \<mapsto> snd v)) headers Map.empty"

text \<open>
  \<open>ks\<close> is the order in which the \<^verbatim>\<open>range\<close> loop of the final \<^verbatim>\<open>IsValid\<close> visits
  the headers. The result is the error or the message, and the reader as it is left.
\<close>

definition DecodeMessage :: "HeaderField list \<Rightarrow> reader \<Rightarrow> (error + Message) \<times> reader" where
  "DecodeMessage ks rd =
     (case Read 1 rd of
        (Inl err, rd1) \<Rightarrow> (Inl err, rd1)
      | (Inr got, rd1) \<Rightarrow>
         (let b = filled 1 got;
              order = (if b ! 0 = of_char CHR ''l'' then Some LittleEndian
                       else if b ! 0 = of_char CHR ''B'' then Some BigEndian
                       else None)
          in (case order of
                None \<Rightarrow> (Inl (InvalidMessageError ''invalid byte order''), rd1)
              | Some order \<Rightarrow>
                 (case DecodeMulti ((NewDecoder rd1 order)\<lparr>d_pos := 1\<rparr>) of
                    (Inl err, dec) \<Rightarrow> (Inl err, d_in dec)
                  | (Inr (t, f, proto, len, serial, headers), dec) \<Rightarrow>
                     (case dec_align 8 dec of
                        (Inl err, dec') \<Rightarrow> (Inl err, d_in dec')
                      | (Inr _, dec') \<Rightarrow>
                         (case (if len \<noteq> 0 then Read (unat len) (d_in dec')
                                else (Inr [], d_in dec')) of
                            (Inl err, rd2) \<Rightarrow> (Inl err, rd2)
                          | (Inr body, rd2) \<Rightarrow>
                             (let message = \<lparr>Order = order, Type = t, Flags = f,
                                    Serial = serial, Headers = headersMap headers,
                                    Body = filled (unat len) body\<rparr>
                              in (case IsValid ks message of
                                    Some err \<Rightarrow> (Inl err, rd2)
                                  | None \<Rightarrow> (Inr message, rd2)))))))))"

section \<open>Message.EncodeTo\<close>

text \<open>
  The loop of lines 165-167 appends a header for each entry of the map, in the order
  \<open>ks\<close> of that \<^verbatim>\<open>range\<close>.
\<close>

definition rangeHeaders ::
  "(HeaderField \<rightharpoonup> Variant) \<Rightarrow> HeaderField list \<Rightarrow> (HeaderField \<times> Variant) list" where
  "rangeHeaders h ks = List.map_filter (\<lambda>k. map_option (Pair k) (h k)) ks"

text \<open>
  The bytes that \<^verbatim>\<open>EncodeTo\<close> assembles in \<^verbatim>\<open>buf\<close> (lines 152-175). The error of
  \<^verbatim>\<open>EncodeMulti\<close> is dropped, as in the source.
\<close>

definition assemble :: "HeaderField list \<Rightarrow> Message \<Rightarrow> byte list" where
  "assemble ks message =
     (let v0 = (case Order message of
                  LittleEndian \<Rightarrow> Some (of_char CHR ''l'')
                | BigEndian \<Rightarrow> Some (of_char CHR ''B'')
                | OtherOrder \<Rightarrow> None);
          headers = rangeHeaders (Headers message) ks;
          enc = snd (EncodeMulti
                  (v0, Type message, Flags message, protoVersion,
                   of_nat (length (Body message)), Serial message, headers)
                  (NewEncoder LittleEndian));
          enc = enc_align 8 enc
      in if Body message \<noteq> [] then e_out enc @ Body message else e_out enc)"

text \<open>
  \<open>ks\<close> is the order of the \<^verbatim>\<open>range\<close> loop inside \<^verbatim>\<open>IsValid\<close>, \<open>ks'\<close> the order of
  the loop that collects the headers.
\<close>

definition EncodeTo ::
  "HeaderField list \<Rightarrow> HeaderField list \<Rightarrow> Message \<Rightarrow> Writer \<Rightarrow> error option \<times> Writer" where
  "EncodeTo ks ks' message out =
     (case IsValid ks message of
        Some err \<Rightarrow> (Some err, out)
      | None \<Rightarrow> WriteTo (assemble ks' message) out)"

section \<open>The invariants of the data model\<close>

text \<open>
  The six invariants that the specification lists for a message, each stated on the
  message and not on the code of \<^verbatim>\<open>IsValid\<close>.
\<close>

definition orderOk :: "Message \<Rightarrow> bool" where
  "orderOk m \<longleftrightarrow> Order m = LittleEndian \<or> Order m = BigEndian"

definition flagsOk :: "Message \<Rightarrow> bool" where
  "flagsOk m \<longleftrightarrow> (\<forall>n. bit (Flags m) n \<longrightarrow> bit (NoReplyExpected OR NoAutoStart) n)"

definition typeOk :: "Message \<Rightarrow> bool" where
  "typeOk m \<longleftrightarrow> Type m \<in> {TypeMethodCall, TypeMethodReply, TypeError, TypeSignal}"

definition knownFields :: "HeaderField set" where
  "knownFields = {FieldPath, FieldInterface, FieldMember, FieldErrorName, FieldReplySerial,
     FieldDestination, FieldSender, FieldSignature, FieldUnixFds}"

definition headersOk :: "Message \<Rightarrow> bool" where
  "headersOk m \<longleftrightarrow>
     (\<forall>k v. Headers m k = Some v \<longrightarrow> k \<in> knownFields \<and> TypeOf (valueOf v) = fieldTypes k)"

definition requiredOk :: "Message \<Rightarrow> bool" where
  "requiredOk m \<longleftrightarrow> (\<forall>f \<in> set (requiredFields (Type m)). Headers m f \<noteq> None)"

definition signatureOk :: "Message \<Rightarrow> bool" where
  "signatureOk m \<longleftrightarrow> (Body m \<noteq> [] \<longrightarrow> Headers m FieldSignature \<noteq> None)"

text \<open>
  The elements of the header array of a message as the encoder lays them out,
  little-endian, at offset 16 (after the marker, three bytes and three uint32), and the
  marker byte of an order.
\<close>

definition headerElements :: "HeaderField list \<Rightarrow> Message \<Rightarrow> byte list" where
  "headerElements ks m =
     e_out (snd (encHeaderList (rangeHeaders (Headers m) ks)
                   \<lparr>e_out = [], e_order = LittleEndian, e_pos = 16\<rparr>))"

definition marker :: "ByteOrder \<Rightarrow> byte" where
  "marker order = (if order = BigEndian then of_char CHR ''B'' else of_char CHR ''l'')"

text \<open>
  Two names for parts of \<^verbatim>\<open>DecodeMessage\<close>: the switch on the first byte (lines
  105-112) and the read of the body (lines 132-137).
\<close>

definition markerOrder :: "byte \<Rightarrow> ByteOrder option" where
  "markerOrder b = (if b = of_char CHR ''l'' then Some LittleEndian
                    else if b = of_char CHR ''B'' then Some BigEndian else None)"

definition readBody :: "uint32 \<Rightarrow> reader \<Rightarrow> (error + byte list) \<times> reader" where
  "readBody len rd = (if len \<noteq> 0 then Read (unat len) rd else (Inr [], rd))"

text \<open>
  The header array of a stream in wire order, as the codec decodes it before
  \<^verbatim>\<open>DecodeMessage\<close> builds the map, and the binding that the last occurrence of a field
  code in such a list gives.
\<close>

definition wireHeaders :: "reader \<Rightarrow> (HeaderField \<times> Variant) list option" where
  "wireHeaders rd =
     (case Read 1 rd of
        (Inl err, rd1) \<Rightarrow> None
      | (Inr got, rd1) \<Rightarrow>
         (case markerOrder (filled 1 got ! 0) of
            None \<Rightarrow> None
          | Some order \<Rightarrow>
             (case DecodeMulti ((NewDecoder rd1 order)\<lparr>d_pos := 1\<rparr>) of
                (Inl err, dec) \<Rightarrow> None
              | (Inr (t, f, proto, len, serial, headers), dec) \<Rightarrow> Some headers)))"

definition lastValue :: "(HeaderField \<times> Variant) list \<Rightarrow> HeaderField \<Rightarrow> Variant option" where
  "lastValue hs k =
     (if filter (\<lambda>h. fst h = k) hs = [] then None
      else Some (snd (last (filter (\<lambda>h. fst h = k) hs))))"

section \<open>Example messages\<close>

definition scenarioA :: Message where
  "scenarioA = \<lparr>Order = LittleEndian, Type = TypeMethodCall, Flags = 0, Serial = 1,
     Headers = [FieldPath \<mapsto> MakeVariant (ObjectPathV ''/org/x''),
                FieldMember \<mapsto> MakeVariant (StringV ''Foo'')],
     Body = []\<rparr>"

definition allFields :: "HeaderField list" where
  "allFields = [FieldPath, FieldInterface, FieldMember, FieldErrorName, FieldReplySerial,
     FieldDestination, FieldSender, FieldSignature, FieldUnixFds]"

definition scenarioB :: Message where
  "scenarioB = scenarioA\<lparr>Headers := [FieldPath \<mapsto> MakeVariant (ObjectPathV ''/org/x'')]\<rparr>"

definition replyNoSerial :: Message where
  "replyNoSerial = \<lparr>Order = BigEndian, Type = TypeMethodReply, Flags = NoReplyExpected,
     Serial = 7, Headers = [FieldDestination \<mapsto> MakeVariant (StringV '':1.5'')], Body = []\<rparr>"

definition errorNoName :: Message where
  "errorNoName = \<lparr>Order = LittleEndian, Type = TypeError, Flags = 0,
     Serial = 8, Headers = [FieldReplySerial \<mapsto> MakeVariant (Uint32V 7)], Body = []\<rparr>"

definition signalNoInterface :: Message where
  "signalNoInterface = \<lparr>Order = LittleEndian, Type = TypeSignal, Flags = 0, Serial = 9,
     Headers = [FieldPath \<mapsto> MakeVariant (ObjectPathV ''/org/x''),
                FieldMember \<mapsto> MakeVariant (StringV ''Changed'')], Body = []\<rparr>"

definition replyWithBody :: Message where
  "replyWithBody = \<lparr>Order = LittleEndian, Type = TypeMethodReply, Flags = 0, Serial = 2,
     Headers = [FieldReplySerial \<mapsto> MakeVariant (Uint32V 1)], Body = [1, 2, 3, 4]\<rparr>"

definition replyBE :: Message where
  "replyBE = \<lparr>Order = BigEndian, Type = TypeMethodReply, Flags = 0, Serial = 1,
     Headers = [FieldReplySerial \<mapsto> MakeVariant (Uint32V 1)], Body = []\<rparr>"

definition bigBody :: Message where
  "bigBody = \<lparr>Order = LittleEndian, Type = TypeMethodReply, Flags = 0, Serial = 2,
     Headers = [FieldReplySerial \<mapsto> MakeVariant (Uint32V 1),
                FieldSignature \<mapsto> MakeVariant (SignatureV ''ay'')],
     Body = replicate 4294967296 0\<rparr>"

definition emptyWriter :: Writer where
  "emptyWriter = \<lparr>calls = [], sink = [], room = None\<rparr>"

definition replyWithSignature :: Message where
  "replyWithSignature = replyWithBody\<lparr>Headers := (Headers replyWithBody)
     (FieldSignature \<mapsto> MakeVariant (SignatureV ''ay''))\<rparr>"

text \<open>Byte sequences: messages as they are on the wire.\<close>

definition scenarioA_wire :: "byte list" where
  "scenarioA_wire =
     [108, 1, 0, 1, 0, 0, 0, 0, 1, 0, 0, 0, 28, 0, 0, 0,
      1, 1, 111, 0, 6, 0, 0, 0, 47, 111, 114, 103, 47, 120, 0, 0,
      3, 1, 115, 0, 3, 0, 0, 0, 70, 111, 111, 0, 0, 0, 0, 0]"

text \<open>\<open>replyBE\<close> with every field big-endian, as the marker \<open>B\<close> announces.\<close>

definition replyBE_wire :: "byte list" where
  "replyBE_wire =
     [66, 2, 0, 1, 0, 0, 0, 0, 0, 0, 0, 1, 0, 0, 0, 8,
      5, 1, 117, 0, 0, 0, 0, 1]"

text \<open>\<open>replyBE\<close> with the marker \<open>B\<close> and every field little-endian.\<close>

definition replyBE_encoded :: "byte list" where
  "replyBE_encoded =
     [66, 2, 0, 1, 0, 0, 0, 0, 1, 0, 0, 0, 8, 0, 0, 0,
      5, 1, 117, 0, 1, 0, 0, 0]"

text \<open>\<open>replyWithSignature\<close> without the four bytes of its body.\<close>

definition replyWithSignature_head :: "byte list" where
  "replyWithSignature_head =
     [108, 2, 0, 1, 4, 0, 0, 0, 2, 0, 0, 0, 16, 0, 0, 0,
      5, 1, 117, 0, 1, 0, 0, 0, 8, 1, 103, 0, 2, 97, 121, 0]"

text \<open>
  Scenario A with a second Path header in front: the header array holds Path "/a",
  Path "/org/x" and Member "Foo".
\<close>

definition duplicatePath_wire :: "byte list" where
  "duplicatePath_wire =
     [108, 1, 0, 1, 0, 0, 0, 0, 1, 0, 0, 0, 44, 0, 0, 0,
      1, 1, 111, 0, 2, 0, 0, 0, 47, 97, 0, 0, 0, 0, 0, 0,
      1, 1, 111, 0, 6, 0, 0, 0, 47, 111, 114, 103, 47, 120, 0, 0,
      3, 1, 115, 0, 3, 0, 0, 0, 70, 111, 111, 0, 0, 0, 0, 0]"

definition duplicatePath_headers :: "(HeaderField \<times> Variant) list" where
  "duplicatePath_headers =
     [(FieldPath, MakeVariant (ObjectPathV ''/a'')),
      (FieldPath, MakeVariant (ObjectPathV ''/org/x'')),
      (FieldMember, MakeVariant (StringV ''Foo''))]"

section \<open>The validator\<close>

lemma flags_mask: "(f AND NOT (NoAutoStart OR NoReplyExpected) = 0) \<longleftrightarrow> (\<forall>n. bit f n \<longrightarrow> bit (NoReplyExpected OR NoAutoStart) n)"
  for f :: Flags
proof -
  have lt: "n < 8" if "bit f n" for n
    using bit_imp_le_length [OF that] by simp
  show ?thesis
    by (auto simp add: bit_eq_iff bit_simps dest: lt)
qed

lemma byte_below: "(k \<noteq> 0 \<and> \<not> of_nat n \<le> k) \<longleftrightarrow> (\<exists>i\<in>{1..<n}. k = of_nat i)"
  if "n < 256" for k :: byte
proof -
  have u: "unat (of_nat n :: byte) = n" using that by (simp add: unat_of_nat)
  have "(k \<noteq> 0 \<and> \<not> of_nat n \<le> k) \<longleftrightarrow> (unat k \<noteq> 0 \<and> unat k < n)"
    by (simp add: word_le_nat_alt unat_eq_0 not_le u)
  also have "\<dots> \<longleftrightarrow> (\<exists>i\<in>{1..<n}. unat k = i)" by auto
  also have "\<dots> \<longleftrightarrow> (\<exists>i\<in>{1..<n}. k = of_nat i)"
    using that by (auto simp: word_unat_eq_iff unat_of_nat)
  finally show ?thesis .
qed

lemma type_range: "(t \<noteq> 0 \<and> \<not> t \<ge> typeMax) \<longleftrightarrow> t \<in> {TypeMethodCall, TypeMethodReply, TypeError, TypeSignal}"
  for t :: Type
proof -
  have "{1..<5::nat} = {1,2,3,4}" by auto
  then show ?thesis
  using byte_below [of 5 t] unfolding const_defs by auto
qed

lemma field_range: "(k \<noteq> 0 \<and> \<not> k \<ge> fieldMax) \<longleftrightarrow> k \<in> knownFields"
  for k :: HeaderField
proof -
  have "{1..<10::nat} = {1,2,3,4,5,6,7,8,9}" by auto
  then show ?thesis
  using byte_below [of 10 k] unfolding const_defs knownFields_def by auto
qed

lemma checkHeaders_None:
  "checkHeaders h ks = None \<longleftrightarrow>
     (\<forall>k\<in>set ks. \<forall>v. h k = Some v \<longrightarrow> k \<in> knownFields \<and> TypeOf (valueOf v) = fieldTypes k)"
  by (induction ks) (auto simp: field_range [symmetric] split: option.splits)

lemma checkHeaders_kinds:
  "checkHeaders h ks = Some e \<Longrightarrow>
     e = InvalidMessageError ''invalid header'' \<or>
     e = InvalidMessageError ''invalid type of header field''"
  by (induction ks) (auto split: option.splits if_splits)

lemma checkRequired_None:
  "checkRequired h fs = None \<longleftrightarrow> (\<forall>f\<in>set fs. h f \<noteq> None)"
  by (induction fs) auto

lemma checkRequired_kind:
  "checkRequired h fs = Some e \<Longrightarrow> e = InvalidMessageError ''missing required header''"
  by (induction fs) (auto split: if_splits)

lemma headersOk_check:
  "rangeOrder ks (Headers m) \<Longrightarrow> checkHeaders (Headers m) ks = None \<longleftrightarrow> headersOk m"
  unfolding checkHeaders_None headersOk_def rangeOrder_def by (auto simp: dom_def)

lemma headersOk_imp_check: "headersOk m \<Longrightarrow> checkHeaders (Headers m) ks = None"
  unfolding checkHeaders_None headersOk_def by auto

lemma IsValid_cases:
  "IsValid ks m =
     (if \<not> orderOk m then Some (InvalidMessageError ''invalid byte order'')
      else if \<not> flagsOk m then Some (InvalidMessageError ''invalid flags'')
      else if \<not> typeOk m then Some (InvalidMessageError ''invalid message type'')
      else if checkHeaders (Headers m) ks \<noteq> None then checkHeaders (Headers m) ks
      else if \<not> requiredOk m then Some (InvalidMessageError ''missing required header'')
      else if \<not> signatureOk m then Some (InvalidMessageError ''missing signature'')
      else None)"
proof -
  have t: "(Type m = 0 \<or> typeMax \<le> Type m) \<longleftrightarrow> \<not> typeOk m"
    using type_range [of "Type m"] unfolding typeOk_def by blast
  have f: "(Flags m AND NOT (NoAutoStart OR NoReplyExpected) \<noteq> 0) \<longleftrightarrow> \<not> flagsOk m"
    unfolding flagsOk_def flags_mask by simp
  have r: "checkRequired (Headers m) (requiredFields (Type m)) =
      (if requiredOk m then None else Some (InvalidMessageError ''missing required header''))"
    using checkRequired_None [of "Headers m" "requiredFields (Type m)"]
      checkRequired_kind [of "Headers m" "requiredFields (Type m)"]
    unfolding requiredOk_def by (cases "checkRequired (Headers m) (requiredFields (Type m))") auto
  show ?thesis
    unfolding IsValid_def t f r
    by (auto simp: orderOk_def signatureOk_def split: option.splits)
qed

lemma flagsOk_iff: "flagsOk m \<longleftrightarrow> Flags m AND NOT (NoAutoStart OR NoReplyExpected) = 0"
  unfolding flagsOk_def flags_mask ..

lemmas ok_defs = orderOk_def flagsOk_iff typeOk_def headersOk_def requiredOk_def
  signatureOk_def knownFields_def fieldTypes_def requiredFields_def

lemma rangeOrder_scenarioA: "rangeOrder allFields (Headers scenarioA)"
  by (simp add: rangeOrder_def allFields_def scenarioA_def const_defs)

lemma scenarioA_ok:
  "orderOk scenarioA" "flagsOk scenarioA" "typeOk scenarioA" "headersOk scenarioA"
  "requiredOk scenarioA" "signatureOk scenarioA"
  by (simp_all add: orderOk_def flagsOk_def typeOk_def headersOk_def requiredOk_def
      signatureOk_def scenarioA_def const_defs knownFields_def fieldTypes_def requiredFields_def)

lemma replyWithBody_ok:
  "orderOk replyWithBody \<and> flagsOk replyWithBody \<and> typeOk replyWithBody \<and>
   headersOk replyWithBody \<and> requiredOk replyWithBody"
  by (simp add: ok_defs replyWithBody_def const_defs)

lemma emptyBody_ok:
  "orderOk (replyWithBody\<lparr>Body := []\<rparr>) \<and> flagsOk (replyWithBody\<lparr>Body := []\<rparr>) \<and>
   typeOk (replyWithBody\<lparr>Body := []\<rparr>) \<and> headersOk (replyWithBody\<lparr>Body := []\<rparr>) \<and>
   requiredOk (replyWithBody\<lparr>Body := []\<rparr>)"
  by (simp add: ok_defs replyWithBody_def const_defs)

text \<open>
  Within the loop over the header entries the error is that of the first entry, in the
  order of the loop, that fails its check.
\<close>

lemma checkHeaders_first_offender:
  assumes "\<forall>k'\<in>set pre. \<forall>v'. h k' = Some v' \<longrightarrow>
             k' \<in> knownFields \<and> TypeOf (valueOf v') = fieldTypes k'"
    and "h k = Some v"
    and "\<not> (k \<in> knownFields \<and> TypeOf (valueOf v) = fieldTypes k)"
  shows "checkHeaders h (pre @ k # post) =
           Some (InvalidMessageError
             (if k \<in> knownFields then ''invalid type of header field'' else ''invalid header''))"
  using assms(1)
proof (induction pre)
  case Nil
  show ?case using assms(2,3) by (auto simp: field_range [symmetric])
next
  case (Cons a pre)
  from Cons.prems have ih: "checkHeaders h (pre @ k # post) =
      Some (InvalidMessageError
        (if k \<in> knownFields then ''invalid type of header field'' else ''invalid header''))"
    by (intro Cons.IH) simp
  from Cons.prems have "h a = None \<or> (\<exists>v'. h a = Some v' \<and> a \<noteq> 0 \<and> \<not> fieldMax \<le> a
      \<and> TypeOf (valueOf v') = fieldTypes a)"
    by (cases "h a") (auto simp: field_range [symmetric])
  then show ?case unfolding append_Cons checkHeaders.simps ih by auto
qed

section \<open>Claims about the validator\<close>

text \<open>
  Claim C3. For every message, \<^verbatim>\<open>IsValid\<close> returns nil exactly when the six invariants
  hold: the order is little- or big-endian, the flags have no bit outside
  \<open>NoReplyExpected\<close> and \<open>NoAutoStart\<close>, the type is one of the four known ones, every
  header key is a known field code whose value has the registry's type, every required
  field of the type is present, and a non-empty body comes with a Signature header.
  Otherwise it returns the error of the first check, in this order, that fails; the
  check of the header entries has two error kinds, one for an unknown code and one for a
  value of the wrong type. \<^verbatim>\<open>IsValid\<close> only reads the message: it is a function from
  the message to the error, and returns no changed message.
\<close>

theorem IsValid_first_failure:
  assumes "rangeOrder ks (Headers m)"
  shows "(IsValid ks m = None \<longleftrightarrow>
            orderOk m \<and> flagsOk m \<and> typeOk m \<and> headersOk m \<and> requiredOk m \<and> signatureOk m)
       \<and> (\<not> orderOk m \<longrightarrow> IsValid ks m = Some (InvalidMessageError ''invalid byte order''))
       \<and> (orderOk m \<and> \<not> flagsOk m \<longrightarrow> IsValid ks m = Some (InvalidMessageError ''invalid flags''))
       \<and> (orderOk m \<and> flagsOk m \<and> \<not> typeOk m \<longrightarrow>
            IsValid ks m = Some (InvalidMessageError ''invalid message type''))
       \<and> (orderOk m \<and> flagsOk m \<and> typeOk m \<and> \<not> headersOk m \<longrightarrow>
            IsValid ks m = Some (InvalidMessageError ''invalid header'') \<or>
            IsValid ks m = Some (InvalidMessageError ''invalid type of header field''))
       \<and> (orderOk m \<and> flagsOk m \<and> typeOk m \<and> headersOk m \<and> \<not> requiredOk m \<longrightarrow>
            IsValid ks m = Some (InvalidMessageError ''missing required header''))
       \<and> (orderOk m \<and> flagsOk m \<and> typeOk m \<and> headersOk m \<and> requiredOk m \<and> \<not> signatureOk m \<longrightarrow>
            IsValid ks m = Some (InvalidMessageError ''missing signature''))"
proof -
  note h = headersOk_check [OF assms]
  have bad: "\<not> headersOk m \<Longrightarrow>
      checkHeaders (Headers m) ks = Some (InvalidMessageError ''invalid header'') \<or>
      checkHeaders (Headers m) ks = Some (InvalidMessageError ''invalid type of header field'')"
    using h checkHeaders_kinds [of "Headers m" ks] by (cases "checkHeaders (Headers m) ks") auto
  show ?thesis
    unfolding IsValid_cases using h bad by auto
qed

theorem IsValid_first_failure_witness:
  "rangeOrder allFields (Headers scenarioA) \<and> IsValid allFields scenarioA = None
   \<and> IsValid allFields (scenarioA\<lparr>Flags := 4\<rparr>)
       = Some (InvalidMessageError ''invalid flags'')"
proof -
  have r: "rangeOrder allFields (Headers (scenarioA\<lparr>Flags := 4\<rparr>))"
    using rangeOrder_scenarioA by simp
  have o: "orderOk (scenarioA\<lparr>Flags := 4\<rparr>)" using scenarioA_ok(1) by (simp add: orderOk_def)
  have f: "\<not> flagsOk (scenarioA\<lparr>Flags := 4\<rparr>)" by (simp add: flagsOk_iff const_defs)
  show ?thesis
    using IsValid_first_failure [OF rangeOrder_scenarioA] IsValid_first_failure [OF r]
      scenarioA_ok rangeOrder_scenarioA o f
    by simp
qed

text \<open>
  Claim C5. A message whose order, flags and header entries pass their checks, and whose
  headers lack a field required for its type (a MethodCall without Path or Member, a
  MethodReply without ReplySerial, an Error without ErrorName or ReplySerial, a Signal
  without Path, Interface or Member), fails validation with the error
  "missing required header".
\<close>

theorem missing_required_header:
  assumes "orderOk m" and "flagsOk m" and "headersOk m"
    and "Type m = TypeMethodCall \<and> (Headers m FieldPath = None \<or> Headers m FieldMember = None)
       \<or> Type m = TypeMethodReply \<and> Headers m FieldReplySerial = None
       \<or> Type m = TypeError \<and>
            (Headers m FieldErrorName = None \<or> Headers m FieldReplySerial = None)
       \<or> Type m = TypeSignal \<and>
            (Headers m FieldPath = None \<or> Headers m FieldInterface = None \<or>
             Headers m FieldMember = None)"
  shows "IsValid ks m = Some (InvalidMessageError ''missing required header'')"
proof -
  from assms(4) have "typeOk m" by (auto simp: typeOk_def)
  moreover from assms(4) have "\<not> requiredOk m"
    by (auto simp: requiredOk_def requiredFields_def const_defs)
  ultimately show ?thesis
    using assms(1-3) headersOk_imp_check [OF assms(3), of ks] by (simp add: IsValid_cases)
qed

theorem missing_required_header_witness:
  "IsValid allFields scenarioB = Some (InvalidMessageError ''missing required header'')
   \<and> IsValid allFields replyNoSerial = Some (InvalidMessageError ''missing required header'')
   \<and> IsValid allFields errorNoName = Some (InvalidMessageError ''missing required header'')
   \<and> IsValid allFields signalNoInterface = Some (InvalidMessageError ''missing required header'')"
proof -
  have "IsValid allFields scenarioB = Some (InvalidMessageError ''missing required header'')"
    by (rule missing_required_header)
      (simp_all add: ok_defs scenarioB_def scenarioA_def const_defs)
  moreover
  have "IsValid allFields replyNoSerial = Some (InvalidMessageError ''missing required header'')"
    by (rule missing_required_header)
      (simp_all add: ok_defs replyNoSerial_def const_defs)
  moreover
  have "IsValid allFields errorNoName = Some (InvalidMessageError ''missing required header'')"
    by (rule missing_required_header)
      (simp_all add: ok_defs errorNoName_def const_defs)
  moreover
  have "IsValid allFields signalNoInterface
      = Some (InvalidMessageError ''missing required header'')"
    by (rule missing_required_header)
      (simp_all add: ok_defs signalNoInterface_def const_defs)
  ultimately show ?thesis by blast
qed

text \<open>
  Claim C6, as stated: every message with a non-empty body and no Signature header
  fails validation with the error "missing signature". The checks run in a fixed order
  and the first failure is returned: a message that also has a flag bit outside the
  known ones gets "invalid flags", from the check of line 190, and the signature check
  of lines 209-213 is not reached.
\<close>

theorem signature_requirement_counterexample:
  "Body (replyWithBody\<lparr>Flags := 4\<rparr>) \<noteq> []
   \<and> Headers (replyWithBody\<lparr>Flags := 4\<rparr>) FieldSignature = None
   \<and> rangeOrder allFields (Headers (replyWithBody\<lparr>Flags := 4\<rparr>))
   \<and> IsValid allFields (replyWithBody\<lparr>Flags := 4\<rparr>)
        = Some (InvalidMessageError ''invalid flags'')
   \<and> IsValid allFields (replyWithBody\<lparr>Flags := 4\<rparr>)
        \<noteq> Some (InvalidMessageError ''missing signature'')"
  by (simp add: IsValid_def replyWithBody_def rangeOrder_def allFields_def const_defs)

text \<open>
  Claim C6, amended. A message with a non-empty body and no Signature header never
  passes validation; when it satisfies all the other invariants (order, flags, type,
  header entries, required fields) the error is "missing signature". The same message
  with a Signature header of signature type passes, and so does a message with an
  empty body and no Signature header.
\<close>

theorem signature_requirement:
  "(Body m \<noteq> [] \<and> Headers m FieldSignature = None \<longrightarrow> IsValid ks m \<noteq> None)
   \<and> (orderOk m \<and> flagsOk m \<and> typeOk m \<and> headersOk m \<and> requiredOk m \<longrightarrow>
        (Body m \<noteq> [] \<and> Headers m FieldSignature = None \<longrightarrow>
           IsValid ks m = Some (InvalidMessageError ''missing signature''))
      \<and> (TypeOf (valueOf v) = Some signatureType \<longrightarrow>
           IsValid ks' (m\<lparr>Headers := (Headers m)(FieldSignature \<mapsto> v)\<rparr>) = None)
      \<and> (Body m = [] \<longrightarrow> IsValid ks m = None))"
proof (intro conjI impI)
  assume "Body m \<noteq> [] \<and> Headers m FieldSignature = None"
  then have "\<not> signatureOk m" by (simp add: signatureOk_def)
  then show "IsValid ks m \<noteq> None" by (simp add: IsValid_cases)
next
  assume ok: "orderOk m \<and> flagsOk m \<and> typeOk m \<and> headersOk m \<and> requiredOk m"
    and "Body m \<noteq> [] \<and> Headers m FieldSignature = None"
  then have "\<not> signatureOk m" by (simp add: signatureOk_def)
  with ok show "IsValid ks m = Some (InvalidMessageError ''missing signature'')"
    using headersOk_imp_check [of m ks] by (simp add: IsValid_cases)
next
  assume ok: "orderOk m \<and> flagsOk m \<and> typeOk m \<and> headersOk m \<and> requiredOk m"
    and v: "TypeOf (valueOf v) = Some signatureType"
  let ?m = "m\<lparr>Headers := (Headers m)(FieldSignature \<mapsto> v)\<rparr>"
  have "headersOk ?m"
    using ok v by (auto simp: headersOk_def knownFields_def fieldTypes_def const_defs)
  moreover have "requiredOk ?m" using ok by (auto simp: requiredOk_def)
  moreover have "signatureOk ?m" by (simp add: signatureOk_def)
  moreover have "orderOk ?m" "flagsOk ?m" "typeOk ?m"
    using ok by (simp_all add: orderOk_def flagsOk_def typeOk_def)
  ultimately show "IsValid ks' ?m = None"
    using headersOk_imp_check [of ?m ks'] by (simp add: IsValid_cases)
next
  assume ok: "orderOk m \<and> flagsOk m \<and> typeOk m \<and> headersOk m \<and> requiredOk m"
    and "Body m = []"
  then have "signatureOk m" by (simp add: signatureOk_def)
  with ok show "IsValid ks m = None"
    using headersOk_imp_check [of m ks] by (simp add: IsValid_cases)
qed

theorem signature_requirement_witness:
  "IsValid allFields replyWithBody = Some (InvalidMessageError ''missing signature'')
   \<and> IsValid allFields
        (replyWithBody\<lparr>Headers := (Headers replyWithBody)
           (FieldSignature \<mapsto> MakeVariant (SignatureV ''u''))\<rparr>) = None
   \<and> IsValid allFields (replyWithBody\<lparr>Body := []\<rparr>) = None"
proof -
  have b: "Body replyWithBody \<noteq> [] \<and> Headers replyWithBody FieldSignature = None"
    by (simp add: replyWithBody_def const_defs)
  have t: "TypeOf (valueOf (MakeVariant (SignatureV ''u''))) = Some signatureType" by simp
  have e: "Body (replyWithBody\<lparr>Body := []\<rparr>) = []" by simp
  show ?thesis
    using signature_requirement [of replyWithBody allFields "MakeVariant (SignatureV ''u'')" allFields]
      signature_requirement [of "replyWithBody\<lparr>Body := []\<rparr>" allFields
        "MakeVariant (SignatureV ''u'')" allFields]
      replyWithBody_ok emptyBody_ok b t e
    by blast
qed

section \<open>Evaluating the codec\<close>

lemma leBytes_numeral:
  "leBytes (numeral k) v = of_nat (v mod 256) # leBytes (pred_numeral k) (v div 256)"
proof -
  have "leBytes (Suc (pred_numeral k)) v = of_nat (v mod 256) # leBytes (pred_numeral k) (v div 256)"
    by (rule leBytes.simps)
  then show ?thesis by (simp only: numeral_eq_Suc [symmetric])
qed

lemma replicate_numeral:
  "replicate (numeral k) x = x # replicate (pred_numeral k) x"
proof -
  have "replicate (Suc (pred_numeral k)) x = x # replicate (pred_numeral k) x"
    by (rule replicate.simps)
  then show ?thesis by (simp only: numeral_eq_Suc [symmetric])
qed

lemma length_leBytes [simp]: "length (leBytes n v) = n"
  by (induction n arbitrary: v) simp_all

lemma length_putUint [simp]: "length (putUint ord n v) = n"
  by (simp add: putUint_def split: ByteOrder.splits)

text \<open>Each encoder step on an encoder written out as a record.\<close>

lemma emit_lit:
  "emit bs \<lparr>e_out = out, e_order = ord, e_pos = p\<rparr>
     = \<lparr>e_out = out @ bs, e_order = ord, e_pos = p + length bs\<rparr>"
  by (simp add: emit_def)

lemma enc_align_lit:
  "enc_align n \<lparr>e_out = out, e_order = ord, e_pos = p\<rparr>
     = \<lparr>e_out = out @ replicate (padding p n) 0, e_order = ord, e_pos = p + padding p n\<rparr>"
  by (simp add: enc_align_def emit_def)

lemma encByte_lit:
  "encByte b \<lparr>e_out = out, e_order = ord, e_pos = p\<rparr>
     = \<lparr>e_out = out @ [b], e_order = ord, e_pos = p + 1\<rparr>"
  by (simp add: encByte_def emit_def)

lemma encUint_lit:
  "encUint w v \<lparr>e_out = out, e_order = ord, e_pos = p\<rparr>
     = \<lparr>e_out = out @ replicate (padding p w) 0 @ putUint ord w v, e_order = ord,
        e_pos = p + padding p w + w\<rparr>"
  by (simp add: encUint_def enc_align_lit emit_lit)

lemma encString_lit:
  "encString s \<lparr>e_out = out, e_order = ord, e_pos = p\<rparr>
     = \<lparr>e_out = out @ replicate (padding p 4) 0 @ putUint ord 4 (length s)
                @ bytesOf s @ [0],
        e_order = ord, e_pos = p + padding p 4 + 4 + length s + 1\<rparr>"
  by (simp add: encString_def encUint_lit emit_lit bytesOf_def)

lemma encSignature_lit:
  "encSignature s \<lparr>e_out = out, e_order = ord, e_pos = p\<rparr>
     = \<lparr>e_out = out @ of_nat (length s) # bytesOf s @ [0], e_order = ord,
        e_pos = p + length s + 2\<rparr>"
  by (simp add: encSignature_def emit_lit bytesOf_def)

lemma encVariant_lit:
  "encVariant (MakeVariant x) enc =
     (case signatureOf x of
        None \<Rightarrow> (Some (Panic ''invalid type''), enc)
      | Some sg \<Rightarrow> (None, encValue x (encSignature sg enc)))"
  by (simp add: encVariant_def split: option.splits)

lemma encHeader_lit:
  "encHeader (k, v) enc = encVariant v (encByte k (enc_align 8 enc))"
  by (simp add: encHeader_def)

lemma encHeaders_lit:
  "encHeaders hs \<lparr>e_out = out, e_order = ord, e_pos = p\<rparr> =
     (case encHeaderList hs
             \<lparr>e_out = [], e_order = ord,
              e_pos = p + padding p 4 + 4 + padding (p + padding p 4 + 4) 8\<rparr> of
        (Some e, sub) \<Rightarrow> (Some e, \<lparr>e_out = out, e_order = ord, e_pos = p\<rparr>)
      | (None, sub) \<Rightarrow>
          (None, emit (e_out sub)
                   (enc_align 8 (encUint 4 (length (e_out sub))
                      (enc_align 4 \<lparr>e_out = out, e_order = ord, e_pos = p\<rparr>)))))"
  by (simp add: encHeaders_def Let_def enc_align_lit split: prod.splits option.splits)

lemma EncodeMulti_lit:
  "EncodeMulti (Some b, t, f, p, len, serial, headers) enc =
     encHeaders headers
       (encUint 4 (unat serial) (encUint 4 (unat len)
         (encByte p (encByte f (encByte t (encByte b enc))))))"
  by (simp add: EncodeMulti_def)

lemma assemble_eq:
  "assemble ks message =
     e_out (enc_align 8 (snd (EncodeMulti
       (case Order message of
          LittleEndian \<Rightarrow> Some (of_char CHR ''l'')
        | BigEndian \<Rightarrow> Some (of_char CHR ''B'')
        | OtherOrder \<Rightarrow> None,
        Type message, Flags message, protoVersion,
        of_nat (length (Body message)), Serial message,
        rangeHeaders (Headers message) ks)
       (NewEncoder LittleEndian)))) @ Body message"
  by (simp add: assemble_def Let_def)

lemmas enc_eval = assemble_eq EncodeMulti_lit encHeaders_lit encHeader_lit encVariant_lit
  NewEncoder_def replicate_numeral leBytes_numeral emit_lit enc_align_lit encByte_lit encUint_lit encString_lit encSignature_lit
  putUint_def padding_def bytesOf_def rangeHeaders_def List.map_filter_def

lemmas dec_eval = replicate_numeral leBytes_numeral decHeaderList.simps DecodeMessage_def DecodeMulti_def decHeaders_def decHeader_def decVariant_def
  decValue_def decBool_def decSignature_def decString_def decUint_def decByte_def dec_align_def
  dec_read_def andThen_def ret_def failWith_def NewDecoder_def getUint_def padding_def
  stringOf_def filled_def headersMap_def char_of_def bit_Suc_0_iff Let_def word_le_nat_alt
  IsValid_def fieldTypes_def requiredFields_def

section \<open>The layout of an encoded message\<close>

lemma padding_aligned: "0 < n \<Longrightarrow> (p + padding p n) mod n = 0"
proof -
  assume n: "0 < n"
  have "p mod n < n" using n by simp
  show ?thesis
  proof (cases "p mod n = 0")
    case True
    then show ?thesis by (simp add: padding_def)
  next
    case False
    then have "padding p n = n - p mod n" using \<open>p mod n < n\<close> by (simp add: padding_def)
    then have "p + padding p n = (p div n) * n + n" using \<open>p mod n < n\<close>
      by (metis add.assoc div_mult_mod_eq le_add_diff_inverse less_imp_le_nat)
    then show ?thesis by simp
  qed
qed

lemma encHeaderList_no_error:
  "\<forall>h\<in>set hs. valueOf (snd h) \<noteq> Nil \<Longrightarrow> fst (encHeaderList hs enc) = None"
proof (induction hs arbitrary: enc)
  case Nil
  show ?case by simp
next
  case (Cons h hs)
  from Cons.prems have "valueOf (snd h) \<noteq> Nil" by simp
  then obtain sg where "signatureOf (valueOf (snd h)) = Some sg"
    by (cases "valueOf (snd h)") simp_all
  then have "fst (encHeader h enc) = None" by (simp add: encHeader_def encVariant_def)
  then obtain enc' where "encHeader h enc = (None, enc')" by (cases "encHeader h enc") simp
  with Cons show ?case by simp
qed

lemma rangeHeaders_set:
  "(k, v) \<in> set (rangeHeaders h ks) \<longleftrightarrow> k \<in> set ks \<and> h k = Some v"
  by (force simp: rangeHeaders_def List.map_filter_def image_iff)

lemma headersOk_no_nil:
  assumes "headersOk m"
  shows "\<forall>h\<in>set (rangeHeaders (Headers m) ks). valueOf (snd h) \<noteq> Nil"
proof
  fix h assume "h \<in> set (rangeHeaders (Headers m) ks)"
  then have "Headers m (fst h) = Some (snd h)"
    using rangeHeaders_set [of "fst h" "snd h"] by simp
  with assms have "fst h \<in> knownFields" "TypeOf (valueOf (snd h)) = fieldTypes (fst h)"
    by (auto simp: headersOk_def)
  then have "TypeOf (valueOf (snd h)) \<noteq> None"
    by (auto simp: knownFields_def fieldTypes_def const_defs)
  then show "valueOf (snd h) \<noteq> Nil" by auto
qed

lemma assemble_layout:
  assumes "orderOk m" and "headersOk m"
  shows "assemble ks m =
           marker (Order m) # Type m # Flags m # protoVersion #
           putUint LittleEndian 4 (unat (of_nat (length (Body m)) :: uint32)) @
           putUint LittleEndian 4 (unat (Serial m)) @
           putUint LittleEndian 4 (length (headerElements ks m)) @
           headerElements ks m @
           replicate (padding (16 + length (headerElements ks m)) 8) 0 @
           Body m"
proof -
  obtain sub where sub: "encHeaderList (rangeHeaders (Headers m) ks)
      \<lparr>e_out = [], e_order = LittleEndian, e_pos = 16\<rparr> = (None, sub)"
    using encHeaderList_no_error [OF headersOk_no_nil [OF assms(2)], of ks
        "\<lparr>e_out = [], e_order = LittleEndian, e_pos = 16\<rparr>"]
    by (cases "encHeaderList (rangeHeaders (Headers m) ks)
      \<lparr>e_out = [], e_order = LittleEndian, e_pos = 16\<rparr>") simp
  have E: "headerElements ks m = e_out sub" by (simp add: headerElements_def sub)
  have p: "padding (Suc (Suc (Suc (Suc 0)))) 4 = 0" "padding 8 4 = 0" "padding 12 4 = 0"
    "padding 16 8 = 0"
    by (simp_all add: padding_def)
  from assms(1) show ?thesis
    unfolding E
    by (auto simp add: orderOk_def marker_def assemble_eq EncodeMulti_lit NewEncoder_def emit_lit
        enc_align_lit encByte_lit encUint_lit encHeaders_lit p sub)
qed

lemma assemble_nonempty: "orderOk m \<Longrightarrow> assemble ks m \<noteq> []"
  by (auto simp add: orderOk_def assemble_eq EncodeMulti_lit NewEncoder_def emit_lit
      enc_align_lit encByte_lit encUint_lit encHeaders_lit split: prod.splits option.splits)

lemma IsValid_None_orderOk: "IsValid ks m = None \<Longrightarrow> orderOk m"
  by (simp add: IsValid_cases split: if_splits)

lemma IsValid_None_headersOk:
  "IsValid ks m = None \<Longrightarrow> rangeOrder ks (Headers m) \<Longrightarrow> headersOk m"
  using headersOk_check [of ks m] by (simp add: IsValid_cases split: if_splits)

lemma leNat_leBytes: "leNat (leBytes n v) = v mod 256 ^ n"
proof (induction n arbitrary: v)
  case 0
  show ?case by simp
next
  case (Suc n)
  have "unat (of_nat (v mod 256) :: byte) = v mod 256"
    by (simp add: unat_of_nat)
  then have "leNat (leBytes (Suc n) v) = v mod 256 + 256 * ((v div 256) mod 256 ^ n)"
    using Suc.IH by simp
  also have "\<dots> = v mod 256 ^ Suc n"
    by (simp add: mod_mult2_eq)
  finally show ?case .
qed

lemma bigBody_valid: "IsValid allFields bigBody = None"
  by (simp add: IsValid_def bigBody_def allFields_def const_defs
      fieldTypes_def requiredFields_def word_le_nat_alt)

lemma bigBody_ok: "orderOk bigBody" "headersOk bigBody"
  by (simp_all add: ok_defs bigBody_def const_defs)

section \<open>What the decoder reads\<close>

lemma Read_Inr:
  "Read n rd = (Inr bs, rd') \<Longrightarrow>
     concat rd = bs @ concat rd' \<and> length bs \<le> n \<and> (0 < n \<longrightarrow> bs \<noteq> [])"
  by (induction rd) (auto split: if_splits)

lemma Read_Inl: "Read n rd = (Inl e, rd') \<Longrightarrow> e = EOF \<and> concat rd = [] \<and> rd' = []"
  by (induction rd) (auto split: if_splits)

lemma Read_first:
  "concat rd = b # rest \<Longrightarrow> \<exists>rd'. Read 1 rd = (Inr [b], rd') \<and> concat rd' = rest"
proof (induction rd)
  case Nil
  then show ?case by simp
next
  case (Cons c cs)
  show ?case
  proof (cases c)
    case Nil
    with Cons show ?thesis by simp
  next
    case (Cons x xs)
    with Cons.prems have "x = b" "xs @ concat cs = rest" by simp_all
    with Cons show ?thesis by (cases xs) auto
  qed
qed

lemma ReadFull_Inr:
  "ReadFull n rd = (Inr bs, rd') \<Longrightarrow> length bs = n \<and> concat rd = bs @ concat rd'"
proof (induction rd arbitrary: n bs rd')
  case Nil
  then show ?case by (simp split: if_splits)
next
  case (Cons c cs)
  consider (z) "n = 0" | (e) "n \<noteq> 0" "c = []" | (f) "n \<noteq> 0" "c \<noteq> []" "n \<le> length c"
    | (m) "n \<noteq> 0" "c \<noteq> []" "\<not> n \<le> length c" by blast
  then show ?case
  proof cases
    case z
    with Cons.prems show ?thesis by simp
  next
    case e
    with Cons.prems have "ReadFull n cs = (Inr bs, rd')" by simp
    from Cons.IH [OF this] e show ?thesis by simp
  next
    case f
    with Cons.prems have "bs = take n c" "rd' = (if n < length c then drop n c # cs else cs)"
      by simp_all
    with f show ?thesis by simp
  next
    case m
    with Cons.prems obtain bs' where
      r: "ReadFull (n - length c) cs = (Inr bs', rd')" and bs: "bs = c @ bs'"
      by (simp split: prod.splits sum.splits)
    from Cons.IH [OF r] m bs show ?thesis by simp
  qed
qed

lemma dec_read_Inr:
  "dec_read n dec = (Inr bs, dec') \<Longrightarrow>
     length bs = n \<and> concat (d_in dec) = bs @ concat (d_in dec') \<and>
     d_pos dec' = d_pos dec + n \<and> d_order dec' = d_order dec"
  by (auto simp: dec_read_def split: prod.splits sum.splits dest: ReadFull_Inr)

lemma andThen_Inr:
  "andThen m f dec = (Inr b, dec') \<Longrightarrow>
     \<exists>a dec1. m dec = (Inr a, dec1) \<and> f a dec1 = (Inr b, dec')"
  by (auto simp: andThen_def split: prod.splits sum.splits)

lemma decByte_Inr:
  "decByte dec = (Inr b, dec') \<Longrightarrow>
     concat (d_in dec) = b # concat (d_in dec') \<and>
     d_pos dec' = d_pos dec + 1 \<and> d_order dec' = d_order dec"
proof -
  assume "decByte dec = (Inr b, dec')"
  then obtain bs where r: "dec_read 1 dec = (Inr bs, dec')"
    and b: "b = (case bs of [] \<Rightarrow> 0 | x # _ \<Rightarrow> x)"
    unfolding decByte_def by (auto dest!: andThen_Inr simp: ret_def)
  from dec_read_Inr [OF r] have "length bs = 1" by simp
  then obtain x where "bs = [x]" by (cases bs) auto
  with b dec_read_Inr [OF r] show ?thesis by simp
qed

lemma dec_align_Inr:
  "dec_align n dec = (Inr u, dec') \<Longrightarrow>
     \<exists>bs. length bs = padding (d_pos dec) n \<and> concat (d_in dec) = bs @ concat (d_in dec') \<and>
       d_pos dec' = d_pos dec + padding (d_pos dec) n \<and> d_order dec' = d_order dec"
  unfolding dec_align_def
  by (auto dest!: andThen_Inr dec_read_Inr simp: ret_def)

lemma decUint_Inr:
  assumes "decUint w dec = (Inr v, dec')"
  shows "\<exists>pad bs. length pad = padding (d_pos dec) w \<and> length bs = w \<and>
           v = getUint (d_order dec) bs \<and>
           concat (d_in dec) = pad @ bs @ concat (d_in dec') \<and>
           d_pos dec' = d_pos dec + padding (d_pos dec) w + w \<and> d_order dec' = d_order dec"
proof -
  from assms obtain u dec1 bs where a: "dec_align w dec = (Inr u, dec1)"
    and r: "dec_read w dec1 = (Inr bs, dec')" and v: "v = getUint (d_order dec') bs"
    unfolding decUint_def by (auto dest!: andThen_Inr simp: ret_def)
  from dec_align_Inr [OF a] obtain pad where
    "length pad = padding (d_pos dec) w" "concat (d_in dec) = pad @ concat (d_in dec1)"
    "d_pos dec1 = d_pos dec + padding (d_pos dec) w" "d_order dec1 = d_order dec"
    by blast
  with dec_read_Inr [OF r] v show ?thesis by (intro exI [of _ pad] exI [of _ bs]) simp
qed

lemma DecodeMessage_unfold:
  "DecodeMessage ks rd =
     (case Read 1 rd of
        (Inl err, rd1) \<Rightarrow> (Inl err, rd1)
      | (Inr got, rd1) \<Rightarrow>
         (case markerOrder (filled 1 got ! 0) of
            None \<Rightarrow> (Inl (InvalidMessageError ''invalid byte order''), rd1)
          | Some order \<Rightarrow>
             (case DecodeMulti ((NewDecoder rd1 order)\<lparr>d_pos := 1\<rparr>) of
                (Inl err, dec) \<Rightarrow> (Inl err, d_in dec)
              | (Inr (t, f, proto, len, serial, headers), dec) \<Rightarrow>
                 (case dec_align 8 dec of
                    (Inl err, dec') \<Rightarrow> (Inl err, d_in dec')
                  | (Inr _, dec') \<Rightarrow>
                     (case readBody len (d_in dec') of
                        (Inl err, rd2) \<Rightarrow> (Inl err, rd2)
                      | (Inr body, rd2) \<Rightarrow>
                         (case IsValid ks \<lparr>Order = order, Type = t, Flags = f,
                                  Serial = serial, Headers = headersMap headers,
                                  Body = filled (unat len) body\<rparr> of
                            Some err \<Rightarrow> (Inl err, rd2)
                          | None \<Rightarrow> (Inr \<lparr>Order = order, Type = t, Flags = f,
                                  Serial = serial, Headers = headersMap headers,
                                  Body = filled (unat len) body\<rparr>, rd2)))))))"
  unfolding DecodeMessage_def markerOrder_def readBody_def Let_def ..

lemma DecodeMessage_Inr:
  assumes "DecodeMessage ks rd = (Inr m, rd')"
  shows "\<exists>got rd1 order t f proto len serial headers dec u dec' body.
           Read 1 rd = (Inr got, rd1) \<and> markerOrder (filled 1 got ! 0) = Some order \<and>
           DecodeMulti ((NewDecoder rd1 order)\<lparr>d_pos := 1\<rparr>)
             = (Inr (t, f, proto, len, serial, headers), dec) \<and>
           dec_align 8 dec = (Inr u, dec') \<and>
           readBody len (d_in dec') = (Inr body, rd') \<and>
           m = \<lparr>Order = order, Type = t, Flags = f, Serial = serial,
                 Headers = headersMap headers, Body = filled (unat len) body\<rparr> \<and>
           IsValid ks m = None"
  using assms unfolding DecodeMessage_unfold
  by (simp split: prod.splits sum.splits option.splits)

lemma length_filled [simp]: "length (filled n bs) = n"
  by (simp add: filled_def)

lemma getUint_4_bound: "length bs = 4 \<Longrightarrow> getUint order bs < 2 ^ 32"
proof -
  have b: "length xs = 4 \<Longrightarrow> leNat xs < 2 ^ 32" for xs
  proof -
    assume "length xs = 4"
    then obtain a b c d where xs: "xs = [a, b, c, d]"
      by (cases xs; cases "tl xs"; cases "tl (tl xs)"; cases "tl (tl (tl xs))") auto
    have "unat a < 256" "unat b < 256" "unat c < 256" "unat d < 256"
      using unsigned_less [of a, where ?'a = nat] unsigned_less [of b, where ?'a = nat]
        unsigned_less [of c, where ?'a = nat] unsigned_less [of d, where ?'a = nat]
      by simp_all
    then show ?thesis unfolding xs by simp
  qed
  assume "length bs = 4"
  then show ?thesis using b [of bs] b [of "rev bs"]
    by (simp add: getUint_def split: ByteOrder.splits)
qed

lemma DecodeMulti_Inr:
  assumes "DecodeMulti dec = (Inr (t, f, proto, len, serial, headers), dec')"
    and "d_pos dec = 1"
  shows "\<exists>lb sb dec5. length lb = 4 \<and> length sb = 4 \<and>
           concat (d_in dec) = t # f # proto # lb @ sb @ concat (d_in dec5) \<and>
           len = of_nat (getUint (d_order dec) lb) \<and>
           serial = of_nat (getUint (d_order dec) sb) \<and>
           d_pos dec5 = 12 \<and> d_order dec5 = d_order dec \<and>
           decHeaders dec5 = (Inr headers, dec')"
proof -
  from assms(1) obtain dec1 dec2 dec3 dec4 dec5 l s where
    1: "decByte dec = (Inr t, dec1)" and 2: "decByte dec1 = (Inr f, dec2)"
    and 3: "decByte dec2 = (Inr proto, dec3)" and 4: "decUint 4 dec3 = (Inr l, dec4)"
    and 5: "decUint 4 dec4 = (Inr s, dec5)" and 6: "decHeaders dec5 = (Inr headers, dec')"
    and l: "len = of_nat l" and s: "serial = of_nat s"
    unfolding DecodeMulti_def
    by (auto dest!: andThen_Inr simp: ret_def)
  note b1 = decByte_Inr [OF 1] and b2 = decByte_Inr [OF 2] and b3 = decByte_Inr [OF 3]
  have p3: "d_pos dec3 = 4" using b1 b2 b3 assms(2) by simp
  from decUint_Inr [OF 4] p3 obtain lb where lb: "length lb = 4" "l = getUint (d_order dec3) lb"
    "concat (d_in dec3) = lb @ concat (d_in dec4)" "d_pos dec4 = 8" "d_order dec4 = d_order dec3"
    by (auto simp: padding_def)
  from decUint_Inr [OF 5] lb(4) obtain sb where sb: "length sb = 4" "s = getUint (d_order dec4) sb"
    "concat (d_in dec4) = sb @ concat (d_in dec5)" "d_pos dec5 = 12" "d_order dec5 = d_order dec4"
    by (auto simp: padding_def)
  show ?thesis
    using b1 b2 b3 lb sb l s 6
    by (intro exI [of _ lb] exI [of _ sb] exI [of _ dec5]) simp
qed
lemma filled_single [simp]: "filled (Suc 0) [b] ! 0 = b"
  by (simp add: filled_def)

lemma DecodeMessage_preamble:
  assumes "DecodeMessage ks rd = (Inr m, rd')"
  shows "\<exists>b t f proto lb sb rest.
           concat rd = b # t # f # proto # lb @ sb @ rest \<and> length lb = 4 \<and> length sb = 4 \<and>
           markerOrder b = Some (Order m) \<and> Type m = t \<and> Flags m = f \<and>
           Serial m = of_nat (getUint (Order m) sb) \<and>
           length (Body m) = getUint (Order m) lb"
proof -
  from DecodeMessage_Inr [OF assms]
  obtain got rd1 order t f proto len serial headers dec u dec' body where
    r: "Read 1 rd = (Inr got, rd1)" and o: "markerOrder (filled 1 got ! 0) = Some order"
    and d: "DecodeMulti ((NewDecoder rd1 order)\<lparr>d_pos := 1\<rparr>)
        = (Inr (t, f, proto, len, serial, headers), dec)"
    and m: "m = \<lparr>Order = order, Type = t, Flags = f, Serial = serial,
        Headers = headersMap headers, Body = filled (unat len) body\<rparr>"
    by blast
  from Read_Inr [OF r] have g: "concat rd = got @ concat rd1" "length got \<le> 1" "got \<noteq> []"
    by simp_all
  then obtain b where got: "got = [b]" by (cases got) auto
  from DecodeMulti_Inr [OF d]
  have "\<exists>lb sb rest. length lb = 4 \<and> length sb = 4 \<and>
      concat rd1 = t # f # proto # lb @ sb @ rest \<and>
      len = of_nat (getUint order lb) \<and> serial = of_nat (getUint order sb)"
    by (simp add: NewDecoder_def) blast
  then obtain lb sb rest where
    l: "length lb = 4" "length sb = 4"
    and c: "concat rd1 = t # f # proto # lb @ sb @ rest"
    and v: "len = of_nat (getUint order lb)" "serial = of_nat (getUint order sb)"
    by blast
  have "unat len = getUint order lb"
    unfolding v using getUint_4_bound [OF l(1), of order] by (simp add: unat_of_nat)
  with g(1) got o l c v m show ?thesis
    by (intro exI [of _ b] exI [of _ t] exI [of _ f] exI [of _ proto] exI [of _ lb]
        exI [of _ sb] exI [of _ rest]) simp
qed

lemma markerOrder_cases:
  "markerOrder b = Some order \<longleftrightarrow>
     b = of_char CHR ''l'' \<and> order = LittleEndian \<or> b = of_char CHR ''B'' \<and> order = BigEndian"
  by (auto simp: markerOrder_def)

lemma decHeaders_Inr:
  assumes "decHeaders dec = (Inr hs, dec')" and "d_pos dec = 12"
  shows "\<exists>hb dec6. length hb = 4 \<and> concat (d_in dec) = hb @ concat (d_in dec6) \<and>
           d_pos dec6 = 16 \<and> d_order dec6 = d_order dec \<and>
           decHeaderList (16 + getUint (d_order dec) hb) [] dec6 = (Inr hs, dec')"
proof -
  from assms(1) obtain n dec1 u dec6 where
    1: "decUint 4 dec = (Inr n, dec1)" and 2: "dec_align 8 dec1 = (Inr u, dec6)"
    and 3: "decHeaderList (d_pos dec6 + n) [] dec6 = (Inr hs, dec')"
    unfolding decHeaders_def by (auto dest!: andThen_Inr)
  from decUint_Inr [OF 1] assms(2) obtain hb where
    hb: "length hb = 4" "n = getUint (d_order dec) hb"
      "concat (d_in dec) = hb @ concat (d_in dec1)" "d_pos dec1 = 16" "d_order dec1 = d_order dec"
    by (auto simp: padding_def)
  from dec_align_Inr [OF 2] hb(4) have
    a: "concat (d_in dec1) = concat (d_in dec6)" "d_pos dec6 = 16" "d_order dec6 = d_order dec1"
    by (auto simp: padding_def)
  from hb a 3 show ?thesis
    by (intro exI [of _ hb] exI [of _ dec6]) (simp add: add.commute)
qed

lemma DecodeMessage_header_array:
  assumes "DecodeMessage ks rd = (Inr m, rd')"
  shows "\<exists>b t f proto lb sb hb dec6 hs dec'.
           concat rd = b # t # f # proto # lb @ sb @ hb @ concat (d_in dec6) \<and>
           length lb = 4 \<and> length sb = 4 \<and> length hb = 4 \<and>
           d_order dec6 = Order m \<and> d_pos dec6 = 16 \<and>
           decHeaderList (16 + getUint (Order m) hb) [] dec6 = (Inr hs, dec') \<and>
           Headers m = headersMap hs"
proof -
  from DecodeMessage_Inr [OF assms]
  obtain got rd1 order t f proto len serial headers dec body where
    r: "Read 1 rd = (Inr got, rd1)"
    and d: "DecodeMulti ((NewDecoder rd1 order)\<lparr>d_pos := 1\<rparr>)
        = (Inr (t, f, proto, len, serial, headers), dec)"
    and m: "m = \<lparr>Order = order, Type = t, Flags = f, Serial = serial,
        Headers = headersMap headers, Body = filled (unat len) body\<rparr>"
    by blast
  from Read_Inr [OF r] have g: "concat rd = got @ concat rd1" "length got \<le> 1" "got \<noteq> []"
    by simp_all
  then obtain b where got: "got = [b]" by (cases got) auto
  from DecodeMulti_Inr [OF d]
  have "\<exists>lb sb dec5. length lb = 4 \<and> length sb = 4 \<and>
      concat rd1 = t # f # proto # lb @ sb @ concat (d_in dec5) \<and>
      d_pos dec5 = 12 \<and> d_order dec5 = order \<and> decHeaders dec5 = (Inr headers, dec)"
    by (simp add: NewDecoder_def) blast
  then obtain lb sb dec5 where l: "length lb = 4" "length sb = 4"
    and c: "concat rd1 = t # f # proto # lb @ sb @ concat (d_in dec5)"
    and p: "d_pos dec5 = 12" "d_order dec5 = order"
    and h: "decHeaders dec5 = (Inr headers, dec)"
    by (elim exE conjE)
  from decHeaders_Inr [OF h p(1)]
  obtain hb dec6 where hb: "length hb = 4" "concat (d_in dec5) = hb @ concat (d_in dec6)"
    "d_pos dec6 = 16" "d_order dec6 = d_order dec5"
    "decHeaderList (16 + getUint (d_order dec5) hb) [] dec6 = (Inr headers, dec)"
    by (elim exE conjE)
  have eq: "concat rd = b # t # f # proto # lb @ sb @ hb @ concat (d_in dec6)"
    using g(1) got c hb(2) by simp
  have o: "d_order dec6 = Order m" using hb(4) p(2) m by simp
  have hl: "decHeaderList (16 + getUint (Order m) hb) [] dec6 = (Inr headers, dec)"
    using hb(5) p(2) m by simp
  have hm: "Headers m = headersMap headers" using m by simp
  from eq l(1) l(2) hb(1) o hb(3) hl hm show ?thesis
    by - (intro exI conjI, assumption+)
qed

lemma DecodeMessage_fields:
  assumes "DecodeMessage ks rd = (Inr m', rd')"
  shows "\<exists>b t f proto lb sb rest.
           concat rd = b # t # f # proto # lb @ sb @ rest \<and> length lb = 4 \<and> length sb = 4 \<and>
           (b = of_char CHR ''l'' \<and> Order m' = LittleEndian \<or>
            b = of_char CHR ''B'' \<and> Order m' = BigEndian) \<and>
           length (Body m') = getUint (Order m') lb \<and>
           Serial m' = of_nat (getUint (Order m') sb) \<and>
           (\<exists>hb dec hs dec'.
              rest = hb @ concat (d_in dec) \<and> length hb = 4 \<and>
              d_order dec = Order m' \<and> d_pos dec = 16 \<and>
              decHeaderList (16 + getUint (Order m') hb) [] dec = (Inr hs, dec') \<and>
              Headers m' = headersMap hs)"
proof -
  from DecodeMessage_preamble [OF assms]
  obtain b t f proto lb sb rest where
    p: "concat rd = b # t # f # proto # lb @ sb @ rest" "length lb = 4" "length sb = 4"
      "markerOrder b = Some (Order m')" "Serial m' = of_nat (getUint (Order m') sb)"
      "length (Body m') = getUint (Order m') lb"
    by blast
  from DecodeMessage_header_array [OF assms]
  obtain b' t' f' proto' lb' sb' hb dec6 hs dec' where
    h: "concat rd = b' # t' # f' # proto' # lb' @ sb' @ hb @ concat (d_in dec6)"
      "length lb' = 4" "length sb' = 4" "length hb = 4"
      "d_order dec6 = Order m'" "d_pos dec6 = 16"
      "decHeaderList (16 + getUint (Order m') hb) [] dec6 = (Inr hs, dec')"
      "Headers m' = headersMap hs"
    by blast
  from p(1-3) h(1-3) have r: "rest = hb @ concat (d_in dec6)" by simp
  from p(4) have mk: "b = of_char CHR ''l'' \<and> Order m' = LittleEndian \<or>
      b = of_char CHR ''B'' \<and> Order m' = BigEndian"
    by (simp add: markerOrder_cases)
  have x: "\<exists>hb dec hs dec'.
      rest = hb @ concat (d_in dec) \<and> length hb = 4 \<and>
      d_order dec = Order m' \<and> d_pos dec = 16 \<and>
      decHeaderList (16 + getUint (Order m') hb) [] dec = (Inr hs, dec') \<and>
      Headers m' = headersMap hs"
    using r h(4) h(5) h(6) h(7) h(8) by blast
  from p(1) p(2) p(3) mk p(6) p(5) x show ?thesis
    by - (rule exI [of _ b], rule exI [of _ t], rule exI [of _ f], rule exI [of _ proto],
        rule exI [of _ lb], rule exI [of _ sb], rule exI [of _ rest], intro conjI, assumption+)
qed

lemma DecodeMessage_after_marker:
  assumes "concat rd = b # rest" and "markerOrder b = Some order"
  shows "\<exists>rd1. Read 1 rd = (Inr [b], rd1) \<and> concat rd1 = rest \<and>
           (\<forall>e dec. DecodeMulti ((NewDecoder rd1 order)\<lparr>d_pos := 1\<rparr>) = (Inl e, dec) \<longrightarrow>
              DecodeMessage ks rd = (Inl e, d_in dec)) \<and>
           (\<forall>m rd'. DecodeMessage ks rd = (Inr m, rd') \<longrightarrow>
              (\<exists>t f proto len serial hs dec.
                 DecodeMulti ((NewDecoder rd1 order)\<lparr>d_pos := 1\<rparr>)
                   = (Inr (t, f, proto, len, serial, hs), dec) \<and>
                 Order m = order \<and> Type m = t \<and> Flags m = f \<and> Serial m = serial \<and>
                 length (Body m) = unat len \<and> Headers m = headersMap hs))"
proof -
  from Read_first [OF assms(1)] obtain rd1 where
    r: "Read 1 rd = (Inr [b], rd1)" and c: "concat rd1 = rest" by blast
  have e: "DecodeMessage ks rd = (Inl e, d_in dec)"
    if "DecodeMulti ((NewDecoder rd1 order)\<lparr>d_pos := 1\<rparr>) = (Inl e, dec)" for e dec
    using r assms(2) that unfolding DecodeMessage_unfold by simp
  have s: "\<exists>t f proto len serial hs dec.
      DecodeMulti ((NewDecoder rd1 order)\<lparr>d_pos := 1\<rparr>)
        = (Inr (t, f, proto, len, serial, hs), dec) \<and>
      Order m = order \<and> Type m = t \<and> Flags m = f \<and> Serial m = serial \<and>
      length (Body m) = unat len \<and> Headers m = headersMap hs"
    if "DecodeMessage ks rd = (Inr m, rd')" for m rd'
  proof -
    from DecodeMessage_Inr [OF that]
    obtain got rd1' order' t f proto len serial headers dec body where
      r': "Read 1 rd = (Inr got, rd1')" and o': "markerOrder (filled 1 got ! 0) = Some order'"
      and d: "DecodeMulti ((NewDecoder rd1' order')\<lparr>d_pos := 1\<rparr>)
          = (Inr (t, f, proto, len, serial, headers), dec)"
      and m: "m = \<lparr>Order = order', Type = t, Flags = f, Serial = serial,
          Headers = headersMap headers, Body = filled (unat len) body\<rparr>"
      by blast
    from r r' have g: "got = [b]" "rd1' = rd1" by simp_all
    with o' assms(2) have "order' = order" by simp
    with d g m show ?thesis by simp
  qed
  from r c e s show ?thesis by blast
qed

lemmas valid_eval = IsValid_def fieldTypes_def requiredFields_def word_le_nat_alt allFields_def
  const_defs

lemma decode_scenarioA: "DecodeMessage allFields [scenarioA_wire] = (Inr scenarioA, [])"
  by (simp add: scenarioA_wire_def allFields_def const_defs dec_eval scenarioA_def)

lemma decode_replyBE_wire: "DecodeMessage allFields [replyBE_wire] = (Inr replyBE, [])"
  by (simp add: replyBE_wire_def allFields_def const_defs dec_eval replyBE_def)

lemma replyBE_valid: "IsValid allFields replyBE = None"
  by (simp add: valid_eval replyBE_def)

lemma rangeOrder_replyBE: "rangeOrder allFields (Headers replyBE)"
  by (simp add: rangeOrder_def allFields_def replyBE_def const_defs)

lemma assemble_replyBE: "assemble allFields replyBE = replyBE_encoded"
  by (simp add: replyBE_def replyBE_encoded_def allFields_def const_defs enc_eval)

section \<open>The header map\<close>

lemma headersMap_snoc: "headersMap (hs @ [h]) = (headersMap hs)(fst h \<mapsto> snd h)"
  by (simp add: headersMap_def)

lemma lastValue_snoc:
  "lastValue (hs @ [h]) k = (if fst h = k then Some (snd h) else lastValue hs k)"
  by (simp add: lastValue_def)

lemma headersMap_lastValue: "headersMap hs k = lastValue hs k"
proof (induction hs rule: rev_induct)
  case Nil
  show ?case by (simp add: headersMap_def lastValue_def)
next
  case (snoc h hs)
  then show ?case unfolding headersMap_snoc lastValue_snoc by simp
qed

lemma lastValue_present: "k \<in> fst ` set hs \<Longrightarrow> lastValue hs k \<noteq> None"
  by (auto simp: lastValue_def filter_empty_conv)

lemma ReadFull_Inl:
  "ReadFull n rd = (Inl e, rd') \<Longrightarrow> e = EOF \<or> e = ErrUnexpectedEOF"
proof (induction rd arbitrary: n e rd')
  case Nil
  then show ?case by (simp split: if_splits)
next
  case (Cons c cs)
  consider (z) "n = 0" | (e) "n \<noteq> 0" "c = []" | (f) "n \<noteq> 0" "c \<noteq> []" "n \<le> length c"
    | (m) "n \<noteq> 0" "c \<noteq> []" "\<not> n \<le> length c" by blast
  then show ?case
  proof cases
    case z
    with Cons.prems show ?thesis by simp
  next
    case e
    with Cons.prems have "ReadFull n cs = (Inl e, rd')" by simp
    from Cons.IH [OF this] show ?thesis .
  next
    case f
    with Cons.prems show ?thesis by simp
  next
    case m
    with Cons.prems show ?thesis by (simp split: prod.splits sum.splits)
  qed
qed

lemma dec_align_Inl:
  "dec_align n dec = (Inl e, dec') \<Longrightarrow> e = EOF \<or> e = ErrUnexpectedEOF"
  unfolding dec_align_def andThen_def dec_read_def ret_def
  by (auto split: prod.splits sum.splits dest: ReadFull_Inl)

lemma readBody_Inl: "readBody len rd = (Inl e, rd') \<Longrightarrow> e = EOF"
  by (auto simp: readBody_def split: if_splits dest: Read_Inl)

lemma decode_duplicatePath:
  "DecodeMessage allFields [duplicatePath_wire] = (Inr scenarioA, [])"
  by (simp add: duplicatePath_wire_def allFields_def const_defs dec_eval scenarioA_def)

lemma wireHeaders_duplicatePath:
  "wireHeaders [duplicatePath_wire] = Some duplicatePath_headers"
  by (simp add: wireHeaders_def markerOrder_def duplicatePath_wire_def duplicatePath_headers_def
      const_defs dec_eval)

section \<open>Claims about EncodeTo\<close>

text \<open>
  Claim C7. When validation fails, \<^verbatim>\<open>EncodeTo\<close> returns the validation error and the
  writer is untouched: no \<^verbatim>\<open>Write\<close> call, no byte. When validation succeeds, the
  writer receives exactly one \<^verbatim>\<open>Write\<close> call, whose argument is the whole assembled
  byte sequence.
\<close>

theorem EncodeTo_validates_first:
  "(IsValid ks m = Some e \<longrightarrow> EncodeTo ks ks' m out = (Some e, out))
   \<and> (IsValid ks m = None \<longrightarrow>
        calls (snd (EncodeTo ks ks' m out)) = calls out @ [assemble ks' m] \<and>
        (room out = None \<longrightarrow>
           EncodeTo ks ks' m out =
             (None, out\<lparr>calls := calls out @ [assemble ks' m],
                        sink := sink out @ assemble ks' m\<rparr>)))"
proof (intro conjI impI)
  assume "IsValid ks m = Some e"
  then show "EncodeTo ks ks' m out = (Some e, out)" by (simp add: EncodeTo_def)
next
  assume v: "IsValid ks m = None"
  then have ne: "assemble ks' m \<noteq> []"
    by (intro assemble_nonempty IsValid_None_orderOk)
  with v show "calls (snd (EncodeTo ks ks' m out)) = calls out @ [assemble ks' m]"
    by (simp add: EncodeTo_def WriteTo_def Write_def split: option.splits)
  assume "room out = None"
  with v ne show "EncodeTo ks ks' m out =
      (None, out\<lparr>calls := calls out @ [assemble ks' m], sink := sink out @ assemble ks' m\<rparr>)"
    by (simp add: EncodeTo_def WriteTo_def Write_def)
qed

theorem EncodeTo_validates_first_witness:
  "EncodeTo allFields allFields scenarioB emptyWriter
     = (Some (InvalidMessageError ''missing required header''), emptyWriter)
   \<and> EncodeTo allFields allFields scenarioA emptyWriter
     = (None, \<lparr>calls = [assemble allFields scenarioA], sink = assemble allFields scenarioA,
               room = None\<rparr>)"
proof -
  have b: "IsValid allFields scenarioB = Some (InvalidMessageError ''missing required header'')"
    by (simp add: IsValid_def scenarioB_def scenarioA_def allFields_def const_defs
        fieldTypes_def requiredFields_def word_le_nat_alt)
  have a: "IsValid allFields scenarioA = None"
    by (simp add: IsValid_def scenarioA_def allFields_def const_defs
        fieldTypes_def requiredFields_def word_le_nat_alt)
  have r: "room emptyWriter = None" by (simp add: emptyWriter_def)
  show ?thesis
    using EncodeTo_validates_first [of allFields scenarioB
        "InvalidMessageError ''missing required header''" allFields emptyWriter]
      EncodeTo_validates_first [of allFields scenarioA e allFields emptyWriter] a b r
    by (simp add: emptyWriter_def)
qed

text \<open>
  Claim C8, as stated: for every valid message the body-length field of the preamble
  (bytes 4 to 7 of the output, little-endian) equals the number of bytes of the body.
  The field is \<^verbatim>\<open>uint32(len(message.Body))\<close>: a body of \<open>2 ^ 32\<close> bytes is valid and
  gets the length field 0.
\<close>

theorem body_length_field_counterexample:
  "IsValid allFields bigBody = None
   \<and> length (Body bigBody) = 4294967296
   \<and> getUint LittleEndian (take 4 (drop 4 (assemble allFields bigBody))) = 0
   \<and> getUint LittleEndian (take 4 (drop 4 (assemble allFields bigBody)))
        \<noteq> length (Body bigBody)"
proof -
  have "take 4 (drop 4 (assemble allFields bigBody))
      = putUint LittleEndian 4 (unat (of_nat (length (Body bigBody)) :: uint32))"
    unfolding assemble_layout [OF bigBody_ok] by simp
  moreover have "length (Body bigBody) = 4294967296" by (simp add: bigBody_def)
  moreover have "unat (of_nat 4294967296 :: uint32) = 0" by simp
  ultimately show ?thesis
    using bigBody_valid by (simp add: getUint_def putUint_def leBytes_numeral)
qed

text \<open>
  Claim C8, amended. For every valid message the body-length field that \<^verbatim>\<open>EncodeTo\<close>
  writes is the number of bytes of the body converted to uint32, that is the count
  modulo \<open>2 ^ 32\<close>, and so the count itself for a body shorter than \<open>2 ^ 32\<close> bytes.
  The output is a prefix whose length is a multiple of 8 (preamble, header array and
  alignment padding) followed by the body bytes as they are; for an empty body nothing
  follows the prefix.
\<close>

theorem body_length_field:
  assumes "IsValid ks m = None" and "rangeOrder ks (Headers m)"
  shows "\<exists>pre. calls (snd (EncodeTo ks ks' m out)) = calls out @ [pre @ Body m]
           \<and> length pre mod 8 = 0
           \<and> getUint LittleEndian (take 4 (drop 4 pre)) = length (Body m) mod 2 ^ 32
           \<and> (length (Body m) < 2 ^ 32 \<longrightarrow>
                getUint LittleEndian (take 4 (drop 4 pre)) = length (Body m))"
proof -
  note ok = IsValid_None_orderOk [OF assms(1)] IsValid_None_headersOk [OF assms]
  define pre where "pre =
      marker (Order m) # Type m # Flags m # protoVersion #
      putUint LittleEndian 4 (unat (of_nat (length (Body m)) :: uint32)) @
      putUint LittleEndian 4 (unat (Serial m)) @
      putUint LittleEndian 4 (length (headerElements ks' m)) @
      headerElements ks' m @
      replicate (padding (16 + length (headerElements ks' m)) 8) 0"
  have a: "assemble ks' m = pre @ Body m"
    unfolding assemble_layout [OF ok] pre_def by simp
  have "assemble ks' m \<noteq> []" using ok(1) by (rule assemble_nonempty)
  with assms(1) have c: "calls (snd (EncodeTo ks ks' m out)) = calls out @ [pre @ Body m]"
    by (simp add: EncodeTo_def WriteTo_def Write_def a split: option.splits)
  have "length pre = 16 + length (headerElements ks' m)
      + padding (16 + length (headerElements ks' m)) 8"
    by (simp add: pre_def)
  then have l: "length pre mod 8 = 0" by (simp add: padding_aligned)
  have "take 4 (drop 4 pre)
      = putUint LittleEndian 4 (unat (of_nat (length (Body m)) :: uint32))"
    by (simp add: pre_def)
  then have "getUint LittleEndian (take 4 (drop 4 pre))
      = unat (of_nat (length (Body m)) :: uint32) mod 256 ^ 4"
    by (simp add: getUint_def putUint_def leNat_leBytes)
  also have "\<dots> = length (Body m) mod 2 ^ 32"
    by (simp add: unat_of_nat)
  finally have f: "getUint LittleEndian (take 4 (drop 4 pre)) = length (Body m) mod 2 ^ 32" .
  from c l f show ?thesis by (intro exI [of _ pre]) simp
qed

theorem body_length_field_witness:
  "\<exists>pre. calls (snd (EncodeTo allFields allFields replyWithSignature emptyWriter))
            = calls emptyWriter @ [pre @ [1, 2, 3, 4]]
         \<and> length pre mod 8 = 0
         \<and> getUint LittleEndian (take 4 (drop 4 pre)) = 4"
proof -
  have v: "IsValid allFields replyWithSignature = None"
    by (simp add: IsValid_def replyWithSignature_def replyWithBody_def allFields_def const_defs
        fieldTypes_def requiredFields_def word_le_nat_alt)
  have r: "rangeOrder allFields (Headers replyWithSignature)"
    by (simp add: rangeOrder_def replyWithSignature_def replyWithBody_def allFields_def const_defs)
  have b: "Body replyWithSignature = [1, 2, 3, 4]"
    by (simp add: replyWithSignature_def replyWithBody_def)
  have l: "length [1, 2, 3, 4 :: byte] = 4" by simp
  from body_length_field [OF v r, of allFields emptyWriter]
  obtain pre where "calls (snd (EncodeTo allFields allFields replyWithSignature emptyWriter))
        = calls emptyWriter @ [pre @ Body replyWithSignature]"
    and "length pre mod 8 = 0"
    and "getUint LittleEndian (take 4 (drop 4 pre)) = length (Body replyWithSignature) mod 2 ^ 32"
    by (elim exE conjE)
  then show ?thesis unfolding b l by (intro exI [of _ pre]) simp
qed

text \<open>
  Claim C2. For a valid message, the bytes that \<^verbatim>\<open>EncodeTo\<close> writes are the marker of the
  message's \<open>Order\<close> (\<open>l\<close> or \<open>B\<close>), the type, the flags, the protocol version, and then
  the body length, the serial and the header array in little-endian, whatever the
  \<open>Order\<close>: the encoder is made with \<^verbatim>\<open>binary.LittleEndian\<close>. \<^verbatim>\<open>DecodeMessage\<close> reads the
  body length, the serial and the length of the header array in the order that the first
  byte of the stream selects, and decodes the headers with a decoder of that order.
\<close>

theorem encode_little_endian_decode_by_marker:
  "(IsValid ks m = None \<and> rangeOrder ks (Headers m) \<longrightarrow>
      calls (snd (EncodeTo ks ks' m out)) = calls out @
        [marker (Order m) # Type m # Flags m # protoVersion #
         putUint LittleEndian 4 (unat (of_nat (length (Body m)) :: uint32)) @
         putUint LittleEndian 4 (unat (Serial m)) @
         putUint LittleEndian 4 (length (headerElements ks' m)) @
         headerElements ks' m @
         replicate (padding (16 + length (headerElements ks' m)) 8) 0 @
         Body m])
   \<and> (DecodeMessage ks rd = (Inr m', rd') \<longrightarrow>
        (\<exists>b t f proto lb sb rest.
           concat rd = b # t # f # proto # lb @ sb @ rest \<and> length lb = 4 \<and> length sb = 4 \<and>
           (b = of_char CHR ''l'' \<and> Order m' = LittleEndian \<or>
            b = of_char CHR ''B'' \<and> Order m' = BigEndian) \<and>
           length (Body m') = getUint (Order m') lb \<and>
           Serial m' = of_nat (getUint (Order m') sb) \<and>
           (\<exists>hb dec hs dec'.
              rest = hb @ concat (d_in dec) \<and> length hb = 4 \<and>
              d_order dec = Order m' \<and> d_pos dec = 16 \<and>
              decHeaderList (16 + getUint (Order m') hb) [] dec = (Inr hs, dec') \<and>
              Headers m' = headersMap hs)))"
proof (intro conjI impI)
  assume v: "IsValid ks m = None \<and> rangeOrder ks (Headers m)"
  then have ok: "orderOk m" "headersOk m"
    using IsValid_None_orderOk IsValid_None_headersOk by blast+
  have "assemble ks' m \<noteq> []" using ok(1) by (rule assemble_nonempty)
  with v have "calls (snd (EncodeTo ks ks' m out)) = calls out @ [assemble ks' m]"
    by (simp add: EncodeTo_def WriteTo_def Write_def split: option.splits)
  then show "calls (snd (EncodeTo ks ks' m out)) = calls out @
        [marker (Order m) # Type m # Flags m # protoVersion #
         putUint LittleEndian 4 (unat (of_nat (length (Body m)) :: uint32)) @
         putUint LittleEndian 4 (unat (Serial m)) @
         putUint LittleEndian 4 (length (headerElements ks' m)) @
         headerElements ks' m @
         replicate (padding (16 + length (headerElements ks' m)) 8) 0 @
         Body m]"
    unfolding assemble_layout [OF ok] .
next
  assume "DecodeMessage ks rd = (Inr m', rd')"
  then show "\<exists>b t f proto lb sb rest.
      concat rd = b # t # f # proto # lb @ sb @ rest \<and> length lb = 4 \<and> length sb = 4 \<and>
      (b = of_char CHR ''l'' \<and> Order m' = LittleEndian \<or>
       b = of_char CHR ''B'' \<and> Order m' = BigEndian) \<and>
      length (Body m') = getUint (Order m') lb \<and>
      Serial m' = of_nat (getUint (Order m') sb) \<and>
      (\<exists>hb dec hs dec'.
         rest = hb @ concat (d_in dec) \<and> length hb = 4 \<and>
         d_order dec = Order m' \<and> d_pos dec = 16 \<and>
         decHeaderList (16 + getUint (Order m') hb) [] dec = (Inr hs, dec') \<and>
         Headers m' = headersMap hs)"
    by (rule DecodeMessage_fields)
qed

theorem encode_little_endian_decode_by_marker_witness:
  "calls (snd (EncodeTo allFields allFields replyBE emptyWriter)) = [replyBE_encoded]
   \<and> (\<exists>b t f proto lb sb rest.
         replyBE_wire = b # t # f # proto # lb @ sb @ rest \<and> length lb = 4 \<and> length sb = 4 \<and>
         b = of_char CHR ''B'' \<and>
         length (Body replyBE) = getUint BigEndian lb \<and>
         Serial replyBE = of_nat (getUint BigEndian sb))"
proof -
  have o: "Order replyBE = BigEndian" by (simp add: replyBE_def)
  have v: "IsValid allFields replyBE = None \<and> rangeOrder allFields (Headers replyBE)"
    using replyBE_valid rangeOrder_replyBE by simp
  have "calls (snd (EncodeTo allFields allFields replyBE emptyWriter))
      = calls emptyWriter @ [assemble allFields replyBE]"
    using encode_little_endian_decode_by_marker
      [of allFields replyBE allFields emptyWriter "[replyBE_wire]" replyBE "[]"]
      v assemble_layout [of replyBE allFields]
      IsValid_None_orderOk [OF replyBE_valid]
      IsValid_None_headersOk [OF replyBE_valid rangeOrder_replyBE]
    by simp
  then have e: "calls (snd (EncodeTo allFields allFields replyBE emptyWriter)) = [replyBE_encoded]"
    by (simp add: assemble_replyBE emptyWriter_def)
  have d: "\<exists>b t f proto lb sb rest.
      concat [replyBE_wire] = b # t # f # proto # lb @ sb @ rest \<and> length lb = 4 \<and>
      length sb = 4 \<and>
      (b = of_char CHR ''l'' \<and> Order replyBE = LittleEndian \<or>
       b = of_char CHR ''B'' \<and> Order replyBE = BigEndian) \<and>
      length (Body replyBE) = getUint (Order replyBE) lb \<and>
      Serial replyBE = of_nat (getUint (Order replyBE) sb) \<and>
      (\<exists>hb dec hs dec'.
         rest = hb @ concat (d_in dec) \<and> length hb = 4 \<and>
         d_order dec = Order replyBE \<and> d_pos dec = 16 \<and>
         decHeaderList (16 + getUint (Order replyBE) hb) [] dec = (Inr hs, dec') \<and>
         Headers replyBE = headersMap hs)"
    using encode_little_endian_decode_by_marker
      [of allFields replyBE allFields emptyWriter "[replyBE_wire]" replyBE "[]"]
      decode_replyBE_wire
    by blast
  then have "\<exists>b t f proto lb sb rest.
      replyBE_wire = b # t # f # proto # lb @ sb @ rest \<and> length lb = 4 \<and> length sb = 4 \<and>
      b = of_char CHR ''B'' \<and>
      length (Body replyBE) = getUint BigEndian lb \<and>
      Serial replyBE = of_nat (getUint BigEndian sb)"
    unfolding o by simp blast
  with e show ?thesis by blast
qed

section \<open>Claims about DecodeMessage\<close>

text \<open>
  Claim C4. When the first byte of the stream is neither \<open>l\<close> nor \<open>B\<close>,
  \<^verbatim>\<open>DecodeMessage\<close> fails with the error "invalid byte order" and every byte after the
  first is still in the reader. When decoding succeeds, the first byte was \<open>l\<close> and the
  message is little-endian, or it was \<open>B\<close> and the message is big-endian, and the body
  length and the serial are the next uint32 values of the stream read in that order.
  After the marker \<open>l\<close> or \<open>B\<close> the rest of the stream goes to a decoder made with the
  order that the marker names, at offset 1: its error is the error of \<^verbatim>\<open>DecodeMessage\<close>,
  and its values are the fields of the decoded message.
\<close>

theorem first_byte_selects_order:
  assumes "concat rd = b # rest"
  shows "(b \<noteq> of_char CHR ''l'' \<and> b \<noteq> of_char CHR ''B'' \<longrightarrow>
           (\<exists>rd1. DecodeMessage ks rd = (Inl (InvalidMessageError ''invalid byte order''), rd1)
                  \<and> concat rd1 = rest))
       \<and> (\<forall>m rd'. DecodeMessage ks rd = (Inr m, rd') \<longrightarrow>
            (b = of_char CHR ''l'' \<and> Order m = LittleEndian \<or>
             b = of_char CHR ''B'' \<and> Order m = BigEndian) \<and>
            (\<exists>t f proto lb sb rest'.
               rest = t # f # proto # lb @ sb @ rest' \<and> length lb = 4 \<and> length sb = 4 \<and>
               length (Body m) = getUint (Order m) lb \<and>
               Serial m = of_nat (getUint (Order m) sb)))
       \<and> (\<forall>order. b = of_char CHR ''l'' \<and> order = LittleEndian \<or>
                    b = of_char CHR ''B'' \<and> order = BigEndian \<longrightarrow>
            (\<exists>rd1. Read 1 rd = (Inr [b], rd1) \<and> concat rd1 = rest \<and>
               (\<forall>e dec. DecodeMulti ((NewDecoder rd1 order)\<lparr>d_pos := 1\<rparr>) = (Inl e, dec) \<longrightarrow>
                  DecodeMessage ks rd = (Inl e, d_in dec)) \<and>
               (\<forall>m rd'. DecodeMessage ks rd = (Inr m, rd') \<longrightarrow>
                  (\<exists>t f proto len serial hs dec.
                     DecodeMulti ((NewDecoder rd1 order)\<lparr>d_pos := 1\<rparr>)
                       = (Inr (t, f, proto, len, serial, hs), dec) \<and>
                     Order m = order \<and> Type m = t \<and> Flags m = f \<and> Serial m = serial \<and>
                     length (Body m) = unat len \<and> Headers m = headersMap hs))))"
proof (intro conjI impI allI)
  assume b: "b \<noteq> of_char CHR ''l'' \<and> b \<noteq> of_char CHR ''B''"
  from Read_first [OF assms] obtain rd1 where
    r: "Read 1 rd = (Inr [b], rd1)" "concat rd1 = rest" by blast
  from b have "markerOrder b = None" by (simp add: markerOrder_def)
  with r show "\<exists>rd1. DecodeMessage ks rd
      = (Inl (InvalidMessageError ''invalid byte order''), rd1) \<and> concat rd1 = rest"
    unfolding DecodeMessage_unfold by simp
next
  fix m rd'
  assume d: "DecodeMessage ks rd = (Inr m, rd')"
  from DecodeMessage_preamble [OF d] assms
  obtain t f proto lb sb rest' where
    p: "rest = t # f # proto # lb @ sb @ rest'" "length lb = 4" "length sb = 4"
      "markerOrder b = Some (Order m)" "Serial m = of_nat (getUint (Order m) sb)"
      "length (Body m) = getUint (Order m) lb"
    by auto
  from p(4) show "b = of_char CHR ''l'' \<and> Order m = LittleEndian \<or>
      b = of_char CHR ''B'' \<and> Order m = BigEndian"
    by (simp add: markerOrder_cases)
  from p show "\<exists>t f proto lb sb rest'.
      rest = t # f # proto # lb @ sb @ rest' \<and> length lb = 4 \<and> length sb = 4 \<and>
      length (Body m) = getUint (Order m) lb \<and> Serial m = of_nat (getUint (Order m) sb)"
    by blast
next
  fix order
  assume "b = of_char CHR ''l'' \<and> order = LittleEndian \<or>
      b = of_char CHR ''B'' \<and> order = BigEndian"
  then have "markerOrder b = Some order" by (simp add: markerOrder_cases)
  from DecodeMessage_after_marker [OF assms this]
  show "\<exists>rd1. Read 1 rd = (Inr [b], rd1) \<and> concat rd1 = rest \<and>
      (\<forall>e dec. DecodeMulti ((NewDecoder rd1 order)\<lparr>d_pos := 1\<rparr>) = (Inl e, dec) \<longrightarrow>
         DecodeMessage ks rd = (Inl e, d_in dec)) \<and>
      (\<forall>m rd'. DecodeMessage ks rd = (Inr m, rd') \<longrightarrow>
         (\<exists>t f proto len serial hs dec.
            DecodeMulti ((NewDecoder rd1 order)\<lparr>d_pos := 1\<rparr>)
              = (Inr (t, f, proto, len, serial, hs), dec) \<and>
            Order m = order \<and> Type m = t \<and> Flags m = f \<and> Serial m = serial \<and>
            length (Body m) = unat len \<and> Headers m = headersMap hs))" .
qed

theorem first_byte_selects_order_witness:
  "(\<exists>rd1. DecodeMessage allFields [[65, 1, 2]]
            = (Inl (InvalidMessageError ''invalid byte order''), rd1) \<and> concat rd1 = [1, 2])
   \<and> (\<exists>t f proto lb sb rest'.
         tl scenarioA_wire = t # f # proto # lb @ sb @ rest' \<and> length lb = 4 \<and>
         length sb = 4 \<and>
         length (Body scenarioA) = getUint LittleEndian lb \<and>
         Serial scenarioA = of_nat (getUint LittleEndian sb))"
proof -
  have c1: "concat [[65, 1, 2 :: byte]] = 65 # [1, 2]" by simp
  have n: "(65 :: byte) \<noteq> of_char CHR ''l'' \<and> (65 :: byte) \<noteq> of_char CHR ''B''" by simp
  have c2: "concat [scenarioA_wire] = 108 # tl scenarioA_wire"
    by (simp add: scenarioA_wire_def)
  have o: "Order scenarioA = LittleEndian" by (simp add: scenarioA_def)
  from first_byte_selects_order [OF c1, of allFields] n
  have a: "\<exists>rd1. DecodeMessage allFields [[65, 1, 2]]
      = (Inl (InvalidMessageError ''invalid byte order''), rd1) \<and> concat rd1 = [1, 2]"
    by blast
  from first_byte_selects_order [OF c2, of allFields] decode_scenarioA
  have "\<exists>t f proto lb sb rest'.
      tl scenarioA_wire = t # f # proto # lb @ sb @ rest' \<and> length lb = 4 \<and> length sb = 4 \<and>
      length (Body scenarioA) = getUint (Order scenarioA) lb \<and>
      Serial scenarioA = of_nat (getUint (Order scenarioA) sb)"
    by blast
  with a show ?thesis unfolding o by blast
qed

text \<open>
  Claim C10. A header array that holds the same field code more than once does not make
  \<^verbatim>\<open>DecodeMessage\<close> fail: the loop of lines 125-128 stores each decoded header into the
  map, so a later occurrence replaces an earlier one. In a decoded message every field
  code of the header array is bound once, to the value of its last occurrence in wire
  order. When the header array was decoded and \<^verbatim>\<open>DecodeMessage\<close> fails all the same,
  the error is one of the reader (end of input in the padding or the body) or the
  validity error of the message whose headers are those last occurrences.
\<close>

theorem duplicate_headers_last_wins:
  "(DecodeMessage ks rd = (Inr m, rd') \<longrightarrow>
      (\<exists>hs. wireHeaders rd = Some hs \<and>
         (\<forall>k. Headers m k = lastValue hs k) \<and>
         (\<forall>k\<in>fst ` set hs. \<exists>v. Headers m k = Some v \<and>
            v = snd (last (filter (\<lambda>h. fst h = k) hs)))))
   \<and> (wireHeaders rd = Some hs \<and> DecodeMessage ks rd = (Inl e, rd') \<longrightarrow>
        e = EOF \<or> e = ErrUnexpectedEOF \<or>
        (\<exists>M. (\<forall>k. Headers M k = lastValue hs k) \<and> IsValid ks M = Some e))"
proof (intro conjI impI)
  assume "DecodeMessage ks rd = (Inr m, rd')"
  from DecodeMessage_Inr [OF this]
  obtain got rd1 order t f proto len serial headers dec body where
    r: "Read 1 rd = (Inr got, rd1)" and o: "markerOrder (filled 1 got ! 0) = Some order"
    and d: "DecodeMulti ((NewDecoder rd1 order)\<lparr>d_pos := 1\<rparr>)
        = (Inr (t, f, proto, len, serial, headers), dec)"
    and m: "m = \<lparr>Order = order, Type = t, Flags = f, Serial = serial,
        Headers = headersMap headers, Body = filled (unat len) body\<rparr>"
    by blast
  have w: "wireHeaders rd = Some headers" using r o d by (simp add: wireHeaders_def)
  have h: "Headers m k = lastValue headers k" for k
    by (simp add: m headersMap_lastValue)
  have "\<exists>v. Headers m k = Some v \<and> v = snd (last (filter (\<lambda>h. fst h = k) headers))"
    if "k \<in> fst ` set headers" for k
    using lastValue_present [OF that] unfolding h
    by (auto simp: lastValue_def split: if_splits)
  with w h show "\<exists>hs. wireHeaders rd = Some hs \<and>
      (\<forall>k. Headers m k = lastValue hs k) \<and>
      (\<forall>k\<in>fst ` set hs. \<exists>v. Headers m k = Some v \<and>
         v = snd (last (filter (\<lambda>h. fst h = k) hs)))"
    by blast
next
  assume a: "wireHeaders rd = Some hs \<and> DecodeMessage ks rd = (Inl e, rd')"
  then obtain got rd1 order t f proto len serial dec where
    r: "Read 1 rd = (Inr got, rd1)" and o: "markerOrder (filled 1 got ! 0) = Some order"
    and d: "DecodeMulti ((NewDecoder rd1 order)\<lparr>d_pos := 1\<rparr>)
        = (Inr (t, f, proto, len, serial, hs), dec)"
    unfolding wireHeaders_def
    by (auto split: prod.splits sum.splits option.splits)
  show "e = EOF \<or> e = ErrUnexpectedEOF \<or>
      (\<exists>M. (\<forall>k. Headers M k = lastValue hs k) \<and> IsValid ks M = Some e)"
  proof (cases "dec_align 8 dec")
    case (Pair x dec')
    show ?thesis
    proof (cases x)
      case (Inl e')
      with a Pair r o d have "e' = e" unfolding DecodeMessage_unfold by simp
      with Inl Pair dec_align_Inl [of 8 dec e dec'] show ?thesis by blast
    next
      case (Inr u)
      show ?thesis
      proof (cases "readBody len (d_in dec')")
        case (Pair y rd2)
        show ?thesis
        proof (cases y)
          case (Inl e')
          with a Pair Inr \<open>dec_align 8 dec = (x, dec')\<close> r o d have "e' = e"
            unfolding DecodeMessage_unfold by simp
          with Inl Pair readBody_Inl [of len "d_in dec'" e rd2] show ?thesis by blast
        next
          case (Inr body)
          let ?M = "\<lparr>Order = order, Type = t, Flags = f, Serial = serial,
              Headers = headersMap hs, Body = filled (unat len) body\<rparr>"
          from a Pair Inr \<open>x = Inr u\<close> \<open>dec_align 8 dec = (x, dec')\<close> r o d
          have "IsValid ks ?M = Some e"
            unfolding DecodeMessage_unfold by (simp split: option.splits)
          moreover have "\<forall>k. Headers ?M k = lastValue hs k"
            by (simp add: headersMap_lastValue)
          ultimately show ?thesis by blast
        qed
      qed
    qed
  qed
qed

theorem duplicate_headers_last_wins_witness:
  "DecodeMessage allFields [duplicatePath_wire] = (Inr scenarioA, [])
   \<and> wireHeaders [duplicatePath_wire] = Some duplicatePath_headers
   \<and> (\<forall>k. Headers scenarioA k = lastValue duplicatePath_headers k)
   \<and> Headers scenarioA FieldPath = Some (MakeVariant (ObjectPathV ''/org/x''))"
proof -
  from duplicate_headers_last_wins [of allFields "[duplicatePath_wire]" scenarioA "[]"]
    decode_duplicatePath wireHeaders_duplicatePath
  have "\<forall>k. Headers scenarioA k = lastValue duplicatePath_headers k" by auto
  moreover have "lastValue duplicatePath_headers FieldPath
      = Some (MakeVariant (ObjectPathV ''/org/x''))"
    by (simp add: lastValue_def duplicatePath_headers_def const_defs)
  ultimately show ?thesis
    using decode_duplicatePath wireHeaders_duplicatePath by simp
qed

section \<open>Encoding and decoding again\<close>

text \<open>
  Claim C1 at a big-endian message. \<open>replyBE\<close> is valid. \<^verbatim>\<open>EncodeTo\<close> writes the marker
  \<open>B\<close> followed by the body length, the serial and the header array in little-endian;
  \<^verbatim>\<open>DecodeMessage\<close> on these bytes reads the fields big-endian, takes the header array
  to be \<open>0x08000000\<close> bytes long and fails with the end of the input. On the same message
  with every field big-endian, as the marker announces, decoding gives the message back.
\<close>

theorem round_trip_big_endian:
  "IsValid allFields replyBE = None
   \<and> EncodeTo allFields allFields replyBE emptyWriter
       = (None, \<lparr>calls = [replyBE_encoded], sink = replyBE_encoded, room = None\<rparr>)
   \<and> DecodeMessage allFields [replyBE_encoded] = (Inl EOF, [])
   \<and> DecodeMessage allFields [replyBE_wire] = (Inr replyBE, [])"
proof -
  have e: "EncodeTo allFields allFields replyBE emptyWriter
      = (None, \<lparr>calls = [replyBE_encoded], sink = replyBE_encoded, room = None\<rparr>)"
    by (simp add: EncodeTo_def replyBE_valid assemble_replyBE WriteTo_def Write_def
        emptyWriter_def replyBE_encoded_def)
  have d: "DecodeMessage allFields [replyBE_encoded] = (Inl EOF, [])"
    by (simp add: replyBE_encoded_def allFields_def const_defs dec_eval)
  from replyBE_valid e d decode_replyBE_wire show ?thesis by simp
qed

text \<open>
  Claim C9 at a stream that delivers less than the body at the one \<^verbatim>\<open>Read\<close> call of
  line 133. The preamble announces a body of four bytes. When the stream ends after two
  of them, or when the reader hands over two and holds the other two for the next call,
  \<^verbatim>\<open>DecodeMessage\<close> succeeds with a body of two stream bytes and two zero bytes of the
  fresh buffer; in the second case the bytes 3 and 4 stay in the reader. With all four
  bytes in the same chunk the body is read whole.
\<close>

theorem short_body_read:
  "DecodeMessage allFields [replyWithSignature_head @ [1, 2]]
     = (Inr (replyWithSignature\<lparr>Body := [1, 2, 0, 0]\<rparr>), [])
   \<and> DecodeMessage allFields [replyWithSignature_head @ [1, 2], [3, 4]]
     = (Inr (replyWithSignature\<lparr>Body := [1, 2, 0, 0]\<rparr>), [[3, 4]])
   \<and> DecodeMessage allFields [replyWithSignature_head @ [1, 2, 3, 4]]
     = (Inr replyWithSignature, [])"
proof -
  have a: "DecodeMessage allFields [replyWithSignature_head @ [1, 2]]
      = (Inr (replyWithSignature\<lparr>Body := [1, 2, 0, 0]\<rparr>), [])"
    by (simp add: replyWithSignature_head_def allFields_def const_defs dec_eval
        replyWithSignature_def replyWithBody_def)
  have b: "DecodeMessage allFields [replyWithSignature_head @ [1, 2], [3, 4]]
      = (Inr (replyWithSignature\<lparr>Body := [1, 2, 0, 0]\<rparr>), [[3, 4]])"
    by (simp add: replyWithSignature_head_def allFields_def const_defs dec_eval
        replyWithSignature_def replyWithBody_def)
  have c: "DecodeMessage allFields [replyWithSignature_head @ [1, 2, 3, 4]]
      = (Inr replyWithSignature, [])"
    by (simp add: replyWithSignature_head_def allFields_def const_defs dec_eval
        replyWithSignature_def replyWithBody_def)
  from a b c show ?thesis by simp
qed

end
